theory Spec2Isabelle
  imports Complex_Main "HOL-Library.Word"
begin

unbundle bit_operations_syntax

section \<open>Numbers and errors\<close>

text \<open>
  The sources are TypeScript over the Web Audio API. A JavaScript \<open>number\<close> is an IEEE 754
  double. The arithmetic on samples (energies, crossfades, stems, PCM scaling) is modelled
  over the reals: it is exact, and the rounding of doubles and of Float32Array stores is
  not modelled there. Where a floor or a cancellation turns a rounding error into a
  different result, the arithmetic is modelled in doubles: the window size and the minimum
  beat interval that \<open>findBeats\<close> derives from the sample rate, and the scores, the total
  and the probabilities of the five-category classifier. An index or a count is a natural
  number or an integer. A real cannot be NaN or an infinity: where the source can produce
  one (a division by zero, a read of \<open>undefined\<close>), the definition says so with the value
  \<open>Inl NonFinite\<close>. An exception is the value \<open>Inl\<close> of its error.
\<close>

datatype error = IndexSizeError | RangeError | Error string | NonFinite

subsection \<open>Doubles\<close>

text \<open>
  \<open>roundToDouble x\<close> is the double nearest to \<open>x\<close>, a tie going to the even significand:
  53 significant bits, and below \<open>2 ^ -1022\<close> the fixed spacing \<open>2 ^ -1074\<close> of the
  subnormal numbers. The exponent range has no upper end here: the overflow to an
  infinity, from \<open>2 ^ 1024\<close> on, is not modelled. An operation of the source on doubles is
  the exact operation followed by this rounding, and a decimal literal of the source is
  the double nearest to it.
\<close>

text \<open>The number of binary digits of a natural number.\<close>

fun bitLength :: "nat \<Rightarrow> nat" where
  "bitLength n = (if n = 0 then 0 else Suc (bitLength (n div 2)))"

declare bitLength.simps [simp del]

text \<open>The binary exponent \<open>e\<close> of a number other than 0: \<open>2 ^ e \<le> \<bar>x\<bar> < 2 ^ (e + 1)\<close>.\<close>

definition exponent :: "real \<Rightarrow> int" where
  "exponent x =
     (if 1 \<le> \<bar>x\<bar> then int (bitLength (nat \<lfloor>\<bar>x\<bar>\<rfloor>)) - 1
      else - int (bitLength (nat \<lceil>1 / \<bar>x\<bar>\<rceil> - 1)))"

text \<open>The nearest integer, a tie going to the even one.\<close>

definition roundEven :: "real \<Rightarrow> int" where
  "roundEven y =
     (let f = \<lfloor>y\<rfloor>; r = y - real_of_int f
      in if r < 1 / 2 then f else if 1 / 2 < r then f + 1 else if even f then f else f + 1)"

definition roundToDouble :: "real \<Rightarrow> real" where
  "roundToDouble x =
     (if x = 0 then 0
      else let ulp = 2 powi (max (exponent x) (- 1022) - 52)
           in real_of_int (roundEven (x / ulp)) * ulp)"

text \<open>The four operations on doubles.\<close>

definition addDouble :: "real \<Rightarrow> real \<Rightarrow> real" where
  "addDouble a b = roundToDouble (a + b)"

definition subDouble :: "real \<Rightarrow> real \<Rightarrow> real" where
  "subDouble a b = roundToDouble (a - b)"

definition mulDouble :: "real \<Rightarrow> real \<Rightarrow> real" where
  "mulDouble a b = roundToDouble (a * b)"

definition divDouble :: "real \<Rightarrow> real \<Rightarrow> real" where
  "divDouble a b = roundToDouble (a / b)"

section \<open>The platform's AudioBuffer\<close>

text \<open>
  An AudioBuffer is a platform object: a number of channels, a number of sample frames,
  a sample rate, and one Float32Array of \<open>length\<close> samples per channel, read through
  \<open>getChannelData\<close>. The platform keeps every channel at exactly \<open>length\<close> samples, so
  the store is a function from channel and index, and \<open>getChannelData\<close> lists its first
  \<open>length\<close> values; it throws IndexSizeError for a channel the buffer does not have.
\<close>

record AudioBuffer =
  numberOfChannels :: nat
  length_buf :: nat
  sampleRate :: real
  channelSamples :: "nat \<Rightarrow> nat \<Rightarrow> real"

definition getChannelData :: "AudioBuffer \<Rightarrow> int \<Rightarrow> error + real list" where
  "getChannelData buffer channel =
     (if 0 \<le> channel \<and> channel < int (numberOfChannels buffer)
      then Inr (map (channelSamples buffer (nat channel)) [0..<length_buf buffer])
      else Inl IndexSizeError)"

definition duration :: "AudioBuffer \<Rightarrow> real" where
  "duration buffer = real (length_buf buffer) / sampleRate buffer"

section \<open>Stem splitter\<close>

text \<open>
  \<open>extractVocals\<close> and \<open>extractBeats\<close> of the stem-mode AudioProcessor. Both return the
  input itself when it has fewer than two channels; otherwise they fill a new buffer of
  the same shape, sample by sample, from the centre \<open>(left + right) / 2\<close>.
\<close>

definition extractVocals :: "AudioBuffer \<Rightarrow> AudioBuffer" where
  "extractVocals buffer =
     (let channels = numberOfChannels buffer in
      if channels < 2 then buffer
      else
        let leftChannel = map (channelSamples buffer 0) [0..<length_buf buffer];
            rightChannel = map (channelSamples buffer 1) [0..<length_buf buffer]
        in \<lparr> numberOfChannels = channels,
             length_buf = length_buf buffer,
             sampleRate = sampleRate buffer,
             channelSamples = (\<lambda>channel i.
               if channel < channels \<and> i < length_buf buffer
               then (let center = (leftChannel ! i + rightChannel ! i) / 2 in center * 0.8)
               else 0) \<rparr>)"

definition extractBeats :: "AudioBuffer \<Rightarrow> AudioBuffer" where
  "extractBeats buffer =
     (let channels = numberOfChannels buffer in
      if channels < 2 then buffer
      else
        let leftChannel = map (channelSamples buffer 0) [0..<length_buf buffer];
            rightChannel = map (channelSamples buffer 1) [0..<length_buf buffer]
        in \<lparr> numberOfChannels = channels,
             length_buf = length_buf buffer,
             sampleRate = sampleRate buffer,
             channelSamples = (\<lambda>channel i.
               if channel < channels \<and> i < length_buf buffer
               then (let originalData = map (channelSamples buffer channel) [0..<length_buf buffer];
                         center = (leftChannel ! i + rightChannel ! i) / 2
                     in originalData ! i - center * 0.8)
               else 0) \<rparr>)"

section \<open>Crossfader\<close>

record BeatInfo =
  bpm :: real
  beats :: "nat list"
  confidence :: real

record MixPoint =
  time :: real
  energy :: real
  score :: real

text \<open>
  A loop that may throw in one of its iterations: the results of the iterations in
  order, or the first error.
\<close>

fun collect :: "(error + 'a) list \<Rightarrow> error + 'a list" where
  "collect [] = Inr []"
| "collect (x # xs) =
     (case x of
        Inl e \<Rightarrow> Inl e
      | Inr v \<Rightarrow> (case collect xs of Inl e \<Rightarrow> Inl e | Inr vs \<Rightarrow> Inr (v # vs)))"

text \<open>
  \<open>let sample = 0; if (index < data.length) sample = data[index]\<close>: an index at or beyond
  the array's length leaves the sample at 0. A negative index passes the test and reads
  \<open>undefined\<close>, which the arithmetic that follows turns into NaN.
\<close>

definition readSample :: "real list \<Rightarrow> int \<Rightarrow> error + real" where
  "readSample data index =
     (if index < int (length data)
      then (if 0 \<le> index then Inr (data ! nat index) else Inl NonFinite)
      else Inr 0)"

text \<open>The body of the inner loop of \<open>createMix\<close> (basic mode), at output index \<open>i\<close>.\<close>

definition mixSample :: "real list \<Rightarrow> real list \<Rightarrow> int \<Rightarrow> int \<Rightarrow> nat \<Rightarrow> nat \<Rightarrow> error + real" where
  "mixSample data1 data2 startSample1 startSample2 mixSamples i =
     (let progress = real i / real mixSamples;
          index1 = startSample1 + int i;
          index2 = startSample2 + int i
      in case readSample data1 index1 of
           Inl e \<Rightarrow> Inl e
         | Inr sample1 \<Rightarrow>
             (case readSample data2 index2 of
                Inl e \<Rightarrow> Inl e
              | Inr sample2 \<Rightarrow>
                  (let fadeOut = 1 - progress; fadeIn = progress
                   in Inr ((sample1 * fadeOut + sample2 * fadeIn) * 0.8))))"

text \<open>The body of the channel loop: the two source channels, then the inner loop.\<close>

definition mixChannel ::
  "AudioBuffer \<Rightarrow> AudioBuffer \<Rightarrow> int \<Rightarrow> int \<Rightarrow> nat \<Rightarrow> nat \<Rightarrow> error + real list" where
  "mixChannel buffer1 buffer2 startSample1 startSample2 mixSamples channel =
     (case getChannelData buffer1 (min (int channel) (int (numberOfChannels buffer1) - 1)) of
        Inl e \<Rightarrow> Inl e
      | Inr data1 \<Rightarrow>
          (case getChannelData buffer2 (min (int channel) (int (numberOfChannels buffer2) - 1)) of
             Inl e \<Rightarrow> Inl e
           | Inr data2 \<Rightarrow>
               collect (map (mixSample data1 data2 startSample1 startSample2 mixSamples)
                          [0..<mixSamples])))"

text \<open>
  \<open>createMix\<close> of the basic AudioProcessor (the beat infos it is handed are not used).
  The sample rate of an AudioBuffer is positive, so \<open>Math.floor(mixDuration * sampleRate)\<close>
  is a natural number. The argument checks of the AudioBuffer constructor are the
  platform's and are not modelled.
\<close>

definition createMix ::
  "AudioBuffer \<Rightarrow> AudioBuffer \<Rightarrow> MixPoint \<Rightarrow> MixPoint \<Rightarrow> error + AudioBuffer" where
  "createMix buffer1 buffer2 mixPoint1 mixPoint2 =
     (let rate = sampleRate buffer1;
          mixDuration = 20;
          mixSamples = nat \<lfloor>mixDuration * rate\<rfloor>;
          channels = max (numberOfChannels buffer1) (numberOfChannels buffer2);
          startSample1 = \<lfloor>time mixPoint1 * rate\<rfloor>;
          startSample2 = \<lfloor>time mixPoint2 * rate\<rfloor>
      in case collect (map (mixChannel buffer1 buffer2 startSample1 startSample2 mixSamples)
                         [0..<channels]) of
           Inl e \<Rightarrow> Inl e
         | Inr mixedData \<Rightarrow>
             Inr \<lparr> numberOfChannels = channels,
                   length_buf = mixSamples,
                   sampleRate = rate,
                   channelSamples = (\<lambda>channel i.
                     if channel < channels \<and> i < mixSamples then mixedData ! channel ! i else 0) \<rparr>)"


definition trackA :: AudioBuffer where
  "trackA =
     \<lparr> numberOfChannels = 2, length_buf = 30, sampleRate = 1,
       channelSamples = (\<lambda>channel i. if channel = 0 then 1 / 2 else 1 / 4) \<rparr>"

definition trackB :: AudioBuffer where
  "trackB =
     \<lparr> numberOfChannels = 1, length_buf = 12, sampleRate = 1,
       channelSamples = (\<lambda>channel i. 1) \<rparr>"

definition pointA :: MixPoint where
  "pointA = \<lparr> time = 21, energy = 1 / 2, score = 1 / 2 \<rparr>"

definition pointB :: MixPoint where
  "pointB = \<lparr> time = 3, energy = 1 / 2, score = 1 / 2 \<rparr>"

section \<open>Beat detector\<close>

text \<open>
  \<open>findBeats\<close> of the basic AudioProcessor takes one channel's samples and the sample
  rate. The sample rate of an AudioBuffer is positive, so the window size and the hop
  size are natural numbers. The window size and the minimum beat interval are floors of
  products of doubles, \<open>Math.floor (sampleRate * 0.04)\<close> and
  \<open>Math.floor (sampleRate * 0.35)\<close>; the energies, the threshold, the BPM and the
  confidence are over the reals. A variable whose name is also a field of a record
  carries a prime.
\<close>

text \<open>The RMS energy of the window that starts at sample \<open>i\<close>: the inner loop over \<open>j\<close>.\<close>

definition windowEnergy :: "real list \<Rightarrow> nat \<Rightarrow> nat \<Rightarrow> real" where
  "windowEnergy channelData windowSize i =
     (let energy = foldl (\<lambda>energy j. energy + channelData ! (i + j) * channelData ! (i + j))
                     0 [0..<windowSize]
      in sqrt (energy / real windowSize))"

text \<open>
  \<open>for (let i = 0; i < channelData.length - windowSize; i += hopSize)\<close>. With a hop size
  of 0 the index never advances and the loop does not end: the value \<open>None\<close>.
\<close>

partial_function (option) energyLoop ::
  "real list \<Rightarrow> nat \<Rightarrow> nat \<Rightarrow> nat \<Rightarrow> real list \<Rightarrow> real list option" where
  "energyLoop channelData windowSize hopSize i energies =
     (if int i < int (length channelData) - int windowSize
      then energyLoop channelData windowSize hopSize (i + hopSize)
             (energies @ [windowEnergy channelData windowSize i])
      else Some energies)"

text \<open>
  \<open>calculateThreshold\<close>: one and a half times the median. The median of no energies is
  \<open>undefined\<close>, and the threshold NaN: the value \<open>None\<close>, which no energy exceeds.
\<close>

definition calculateThreshold :: "real list \<Rightarrow> real option" where
  "calculateThreshold energies =
     (if energies = [] then None
      else (let sorted = sort energies;
                median = sorted ! (length sorted div 2)
            in Some (median * 1.5)))"

definition exceeds :: "real \<Rightarrow> real option \<Rightarrow> bool" where
  "exceeds energy' threshold = (case threshold of None \<Rightarrow> False | Some t \<Rightarrow> energy' > t)"

text \<open>
  The peak detection loop \<open>for (let i = 2; i < energies.length - 2; i++)\<close>, over the
  indices it visits and the state \<open>(lastBeat, beats)\<close>.
\<close>

fun peakLoop ::
  "real list \<Rightarrow> real option \<Rightarrow> nat \<Rightarrow> int \<Rightarrow> nat list \<Rightarrow> int \<times> nat list \<Rightarrow> int \<times> nat list" where
  "peakLoop energies threshold hopSize minBeatInterval [] state = state"
| "peakLoop energies threshold hopSize minBeatInterval (i # is) (lastBeat, beats') =
     (let currentSample = i * hopSize;
          energy = energies ! i
      in if exceeds energy threshold \<and>
            energy > energies ! (i - 1) \<and> energy > energies ! (i - 2) \<and>
            energy > energies ! (i + 1) \<and> energy > energies ! (i + 2) \<and>
            int currentSample - lastBeat > minBeatInterval
         then peakLoop energies threshold hopSize minBeatInterval is
                (int currentSample, beats' @ [currentSample])
         else peakLoop energies threshold hopSize minBeatInterval is (lastBeat, beats'))"

text \<open>The intervals between consecutive beats, as both BPM and confidence collect them.\<close>

definition beatIntervals :: "nat list \<Rightarrow> int list" where
  "beatIntervals beats' =
     map (\<lambda>i. int (beats' ! i) - int (beats' ! (i - 1))) [1..<length beats']"

text \<open>
  \<open>calculateBPM\<close>. An average interval of 0 makes the quotient an infinity or NaN.
\<close>

definition calculateBPM :: "nat list \<Rightarrow> real \<Rightarrow> error + real" where
  "calculateBPM beats' rate =
     (if length beats' < 2 then Inr 120
      else
        let intervals = beatIntervals beats';
            avgInterval = real_of_int (foldl (+) 0 intervals) / real (length intervals)
        in if avgInterval = 0 then Inl NonFinite
           else Inr ((60 * rate) / avgInterval))"

text \<open>
  \<open>calculateConfidence\<close>. With a mean interval of 0 the coefficient of variation is
  \<open>+Infinity\<close> when the variance is positive, which the clamp turns into 0.3, and NaN
  when the variance is 0 too.
\<close>

definition calculateConfidence :: "nat list \<Rightarrow> error + real" where
  "calculateConfidence beats' =
     (if length beats' < 4 then Inr 0.3
      else
        let intervals = beatIntervals beats';
            mean = real_of_int (foldl (+) 0 intervals) / real (length intervals);
            variance = foldl (\<lambda>sum val. sum + (real_of_int val - mean) ^ 2) 0 intervals
                         / real (length intervals)
        in if mean = 0 then (if variance = 0 then Inl NonFinite else Inr 0.3)
           else (let cv = sqrt variance / mean in Inr (max 0.3 (min 1 (1 - cv)))))"

text \<open>\<open>Math.round\<close>: the nearest integer, a tie going up.\<close>

definition js_round :: "real \<Rightarrow> int" where
  "js_round x = \<lfloor>x + 1 / 2\<rfloor>"

text \<open>
  \<open>findBeats\<close>. \<open>None\<close>: no BeatInfo is returned, because the energy loop does not end
  (or because of a division by zero in the BPM or the confidence, which the beats
  found here never cause).
\<close>

definition findBeats :: "real list \<Rightarrow> real \<Rightarrow> BeatInfo option" where
  "findBeats channelData rate =
     (let windowSize = nat \<lfloor>mulDouble rate (roundToDouble 0.04)\<rfloor>;
          hopSize = windowSize div 4;
          minBeatInterval = \<lfloor>mulDouble rate (roundToDouble 0.35)\<rfloor>
      in case energyLoop channelData windowSize hopSize 0 [] of
           None \<Rightarrow> None
         | Some energies \<Rightarrow>
             (let threshold = calculateThreshold energies;
                  (lastBeat, beats') =
                     peakLoop energies threshold hopSize minBeatInterval
                       [2..<length energies - 2] (- minBeatInterval, [])
              in case calculateBPM beats' rate of
                   Inl e \<Rightarrow> None
                 | Inr bpm' \<Rightarrow>
                     (case calculateConfidence beats' of
                        Inl e \<Rightarrow> None
                      | Inr confidence' \<Rightarrow>
                          Some \<lparr> bpm = max 85 (min 175 (real_of_int (js_round bpm'))),
                                 beats = beats',
                                 confidence = confidence' \<rparr>)))"

text \<open>
  Fifty-four samples at 100 Hz (windows of 4 samples, hop 1, minimum beat interval 35):
  silence with two bumps 40 samples apart, and the RMS energies of its fifty windows.
\<close>

definition twoBumps :: "real list" where
  "twoBumps =
     [0, 0, 0, 0, 1/4, 1/2, 1/2, 1/4, 0, 0, 0, 0, 0, 0, 0, 0, 0, 0, 0, 0, 0, 0, 0, 0,
      0, 0, 0, 0, 0, 0, 0, 0, 0, 0, 0, 0, 0, 0, 0, 0, 0, 0, 0, 0, 1/4, 1/2, 1/2, 1/4,
      0, 0, 0, 0, 0, 0]"

definition twoBumpsEnergies :: "real list" where
  "twoBumpsEnergies =
     [0, sqrt (1 / 64), sqrt (5 / 64), sqrt (9 / 64), sqrt (5 / 32), sqrt (9 / 64),
      sqrt (5 / 64), sqrt (1 / 64), 0, 0, 0, 0, 0, 0, 0, 0, 0, 0, 0, 0, 0, 0, 0, 0,
      0, 0, 0, 0, 0, 0, 0, 0, 0, 0, 0, 0, 0, 0, 0, 0, 0, sqrt (1 / 64),
      sqrt (5 / 64), sqrt (9 / 64), sqrt (5 / 32), sqrt (9 / 64), sqrt (5 / 64),
      sqrt (1 / 64), 0, 0]"

definition twoBumpsInfo :: BeatInfo where
  "twoBumpsInfo = \<lparr> bpm = 150, beats = [4, 44], confidence = 3 / 10 \<rparr>"


text \<open>
  Twenty thousand samples at 44100 Hz (windows of 1764 samples, hop 441): silence with
  four clicks, at the first and the last sample of window 4 and of window 39; the RMS
  energies of its forty-two windows; and what \<open>findBeats\<close> returns for it.
\<close>

definition fourClicks :: "real list" where
  "fourClicks = map (\<lambda>i. if i \<in> {1764, 3527, 17199, 18962} then 1 else 0) [0..<20000]"

definition fourClicksEnergies :: "real list" where
  "fourClicksEnergies =
     [0, sqrt (1 / 1764), sqrt (1 / 1764), sqrt (1 / 1764), sqrt (2 / 1764),
      sqrt (1 / 1764), sqrt (1 / 1764), sqrt (1 / 1764),
      0, 0, 0, 0, 0, 0, 0, 0, 0, 0, 0, 0, 0, 0, 0, 0, 0, 0, 0, 0, 0, 0, 0, 0, 0, 0, 0, 0,
      sqrt (1 / 1764), sqrt (1 / 1764), sqrt (1 / 1764), sqrt (2 / 1764),
      sqrt (1 / 1764), sqrt (1 / 1764)]"

definition fourClicksInfo :: BeatInfo where
  "fourClicksInfo = \<lparr> bpm = 171, beats = [1764, 17199], confidence = 3 / 10 \<rparr>"

section \<open>Mix-point selector\<close>

text \<open>The pair of points \<open>findMixPoints\<close> returns.\<close>

record MixPair =
  point1 :: MixPoint
  point2 :: MixPoint

text \<open>
  \<open>calculateEnergy\<close>: the RMS of the 100 ms window that starts at \<open>time\<close>, or 0.5 when
  the window does not end before the channel does. A window of no samples makes the
  quotient 0/0, and a negative start sample reads \<open>undefined\<close>: NaN both.
\<close>

definition calculateEnergy :: "AudioBuffer \<Rightarrow> real \<Rightarrow> error + real" where
  "calculateEnergy buffer time' =
     (let rate = sampleRate buffer;
          startSample = \<lfloor>time' * rate\<rfloor>;
          windowSize = \<lfloor>rate * 0.1\<rfloor>
      in case getChannelData buffer 0 of
           Inl e \<Rightarrow> Inl e
         | Inr channelData \<Rightarrow>
             if startSample + windowSize \<ge> int (length channelData) then Inr 0.5
             else if windowSize < 0 then Inr 0
             else if windowSize = 0 \<or> startSample < 0 then Inl NonFinite
             else
               let energy' = foldl (\<lambda>energy' i. energy' + channelData ! i * channelData ! i) 0
                               [nat startSample..<nat (startSample + windowSize)]
               in Inr (sqrt (energy' / real_of_int windowSize)))"

text \<open>
  \<open>getPositionScore\<close>: 1 minus the distance of the time from the middle of its window,
  in units of the window. A duration of 0 or an empty window divides by zero.
\<close>

definition getPositionScore :: "real \<Rightarrow> real \<Rightarrow> real \<Rightarrow> real \<Rightarrow> error + real" where
  "getPositionScore time' duration' startPct endPct =
     (if duration' = 0 \<or> endPct - startPct = 0 then Inl NonFinite
      else
        let normalizedTime = (time' / duration' - startPct) / (endPct - startPct)
        in Inr (1 - \<bar>normalizedTime - 0.5\<bar>))"

text \<open>The loop of \<open>findCandidates\<close> over the beats, with the candidates found so far.\<close>

fun candidateLoop ::
  "AudioBuffer \<Rightarrow> real \<Rightarrow> real \<Rightarrow> nat list \<Rightarrow> MixPoint list \<Rightarrow> error + MixPoint list" where
  "candidateLoop buffer startPct endPct [] candidates = Inr candidates"
| "candidateLoop buffer startPct endPct (beat # rest) candidates =
     (let rate = sampleRate buffer;
          duration' = duration buffer;
          time' = real beat / rate
      in if time' \<ge> duration' * startPct \<and> time' \<le> duration' * endPct
         then
           (case calculateEnergy buffer time' of
              Inl e \<Rightarrow> Inl e
            | Inr energy' \<Rightarrow>
                (case getPositionScore time' duration' startPct endPct of
                   Inl e \<Rightarrow> Inl e
                 | Inr positionScore \<Rightarrow>
                     candidateLoop buffer startPct endPct rest
                       (candidates @
                          [\<lparr> time = time', energy = energy', score = energy' * positionScore \<rparr>])))
         else candidateLoop buffer startPct endPct rest candidates)"

text \<open>
  \<open>findCandidates\<close>: the beats inside the window, by descending score (the sort is
  stable), the best five.
\<close>

definition findCandidates :: "BeatInfo \<Rightarrow> AudioBuffer \<Rightarrow> real \<Rightarrow> real \<Rightarrow> error + MixPoint list" where
  "findCandidates beatInfo buffer startPct endPct =
     (case candidateLoop buffer startPct endPct (beats beatInfo) [] of
        Inl e \<Rightarrow> Inl e
      | Inr candidates \<Rightarrow> Inr (take 5 (sort_key (\<lambda>c. - score c) candidates)))"

text \<open>The loops of \<open>findMixPoints\<close> over the pairs, with the state \<open>(bestScore, bestMatch)\<close>.\<close>

fun innerPairLoop :: "MixPoint \<Rightarrow> MixPoint list \<Rightarrow> real \<times> MixPair \<Rightarrow> real \<times> MixPair" where
  "innerPairLoop p1 [] state = state"
| "innerPairLoop p1 (p2 # rest) (bestScore, bestMatch) =
     (let energyMatch = 1 - \<bar>energy p1 - energy p2\<bar>;
          score' = energyMatch * score p1 * score p2
      in if score' > bestScore
         then innerPairLoop p1 rest (score', \<lparr> point1 = p1, point2 = p2 \<rparr>)
         else innerPairLoop p1 rest (bestScore, bestMatch))"

fun pairLoop :: "MixPoint list \<Rightarrow> MixPoint list \<Rightarrow> real \<times> MixPair \<Rightarrow> real \<times> MixPair" where
  "pairLoop [] candidates2 state = state"
| "pairLoop (p1 # rest) candidates2 state =
     pairLoop rest candidates2 (innerPairLoop p1 candidates2 state)"

text \<open>The default points: 70% and 30% of the duration, energy and score 0.5.\<close>

definition defaultPoint :: "AudioBuffer \<Rightarrow> real \<Rightarrow> MixPoint" where
  "defaultPoint buffer fraction =
     \<lparr> time = duration buffer * fraction, energy = 0.5, score = 0.5 \<rparr>"

definition findMixPoints ::
  "BeatInfo \<Rightarrow> BeatInfo \<Rightarrow> AudioBuffer \<Rightarrow> AudioBuffer \<Rightarrow> error + MixPair" where
  "findMixPoints beatInfo1 beatInfo2 buffer1 buffer2 =
     (case findCandidates beatInfo1 buffer1 0.6 0.85 of
        Inl e \<Rightarrow> Inl e
      | Inr candidates1 \<Rightarrow>
          (case findCandidates beatInfo2 buffer2 0.15 0.5 of
             Inl e \<Rightarrow> Inl e
           | Inr candidates2 \<Rightarrow>
               (let bestMatch =
                      \<lparr> point1 = (case candidates1 of
                                     [] \<Rightarrow> defaultPoint buffer1 0.7
                                   | c # cs \<Rightarrow> c),
                        point2 = (case candidates2 of
                                     [] \<Rightarrow> defaultPoint buffer2 0.3
                                   | c # cs \<Rightarrow> c) \<rparr>;
                    bestScore = 0
                in Inr (snd (pairLoop candidates1 candidates2 (bestScore, bestMatch))))))"

text \<open>A ten-second track of 100 samples at 10 Hz, every sample 1, and beats on it.\<close>

definition steady :: AudioBuffer where
  "steady =
     \<lparr> numberOfChannels = 1, length_buf = 100, sampleRate = 10,
       channelSamples = (\<lambda>channel i. 1) \<rparr>"

definition lateBeats :: BeatInfo where
  "lateBeats = \<lparr> bpm = 120, beats = [30, 65, 70, 72, 90], confidence = 0.3 \<rparr>"

definition earlyBeats :: BeatInfo where
  "earlyBeats = \<lparr> bpm = 120, beats = [10, 20, 30, 60], confidence = 0.3 \<rparr>"

definition noBeats :: BeatInfo where
  "noBeats = \<lparr> bpm = 120, beats = [], confidence = 0.3 \<rparr>"

section \<open>Container encoder\<close>

text \<open>
  The ArrayBuffer behind the DataView is a list of bytes. A DataView setter converts its
  number to an integer by truncation towards zero and keeps the low bits (NaN, which here
  is \<open>None\<close>, becomes 0); it throws RangeError when the bytes it writes do not lie inside
  the buffer. The encoder passes \<open>true\<close> for \<open>littleEndian\<close> throughout, so the setters
  here are the little-endian ones: the low byte first.
\<close>

type_synonym byte = "8 word"

definition js_trunc :: "real \<Rightarrow> int" where
  "js_trunc x = (if x < 0 then \<lceil>x\<rceil> else \<lfloor>x\<rfloor>)"

definition andThen :: "error + 'a \<Rightarrow> ('a \<Rightarrow> error + 'b) \<Rightarrow> error + 'b" where
  "andThen m f = (case m of Inl e \<Rightarrow> Inl e | Inr x \<Rightarrow> f x)"

definition setUint8 :: "nat \<Rightarrow> real \<Rightarrow> byte list \<Rightarrow> error + byte list" where
  "setUint8 byteOffset v view =
     (if byteOffset + 1 \<le> length view
      then Inr (view[byteOffset := word_of_int (js_trunc v)])
      else Inl RangeError)"

definition setUint16 :: "nat \<Rightarrow> real \<Rightarrow> byte list \<Rightarrow> error + byte list" where
  "setUint16 byteOffset v view =
     (if byteOffset + 2 \<le> length view
      then (let w = (word_of_int (js_trunc v) :: 16 word)
            in Inr (view[byteOffset := ucast w, byteOffset + 1 := ucast (drop_bit 8 w)]))
      else Inl RangeError)"

definition setInt16 :: "nat \<Rightarrow> real option \<Rightarrow> byte list \<Rightarrow> error + byte list" where
  "setInt16 byteOffset v view =
     (if byteOffset + 2 \<le> length view
      then (let w = (case v of None \<Rightarrow> 0 | Some x \<Rightarrow> (word_of_int (js_trunc x) :: 16 word))
            in Inr (view[byteOffset := ucast w, byteOffset + 1 := ucast (drop_bit 8 w)]))
      else Inl RangeError)"

definition setUint32 :: "nat \<Rightarrow> real \<Rightarrow> byte list \<Rightarrow> error + byte list" where
  "setUint32 byteOffset v view =
     (if byteOffset + 4 \<le> length view
      then (let w = (word_of_int (js_trunc v) :: 32 word)
            in Inr (view[byteOffset := ucast w,
                         byteOffset + 1 := ucast (drop_bit 8 w),
                         byteOffset + 2 := ucast (drop_bit 16 w),
                         byteOffset + 3 := ucast (drop_bit 24 w)]))
      else Inl RangeError)"

text \<open>
  The matching little-endian getters of a DataView, which return numbers: the unsigned
  value of the bytes, or for \<open>getInt16\<close> their two's complement value.
\<close>

definition getUint16 :: "byte list \<Rightarrow> nat \<Rightarrow> error + nat" where
  "getUint16 view byteOffset =
     (if byteOffset + 2 \<le> length view
      then Inr (unat ((ucast (view ! byteOffset)
                       OR push_bit 8 (ucast (view ! (byteOffset + 1)))) :: 16 word))
      else Inl RangeError)"

definition getInt16 :: "byte list \<Rightarrow> nat \<Rightarrow> error + int" where
  "getInt16 view byteOffset =
     (if byteOffset + 2 \<le> length view
      then Inr (sint ((ucast (view ! byteOffset)
                       OR push_bit 8 (ucast (view ! (byteOffset + 1)))) :: 16 word))
      else Inl RangeError)"

definition getUint32 :: "byte list \<Rightarrow> nat \<Rightarrow> error + nat" where
  "getUint32 view byteOffset =
     (if byteOffset + 4 \<le> length view
      then Inr (unat ((ucast (view ! byteOffset)
                       OR push_bit 8 (ucast (view ! (byteOffset + 1)))
                       OR push_bit 16 (ucast (view ! (byteOffset + 2)))
                       OR push_bit 24 (ucast (view ! (byteOffset + 3)))) :: 32 word))
      else Inl RangeError)"

text \<open>
  What a 32-bit field holds of a number: its integer part modulo \<open>2 ^ 32\<close>.
\<close>

definition toUint32 :: "real \<Rightarrow> nat" where
  "toUint32 x = nat (js_trunc x mod 2 ^ 32)"

text \<open>\<open>writeString\<close>: one \<open>setUint8\<close> per character code, from \<open>offset\<close> on.\<close>

fun writeString :: "nat \<Rightarrow> string \<Rightarrow> byte list \<Rightarrow> error + byte list" where
  "writeString offset [] view = Inr view"
| "writeString offset (c # cs) view =
     andThen (setUint8 offset (real (of_char c)) view) (writeString (offset + 1) cs)"

text \<open>The thirteen header statements of \<open>audioBufferToWav\<close>.\<close>

definition writeHeader :: "AudioBuffer \<Rightarrow> byte list \<Rightarrow> error + byte list" where
  "writeHeader buffer view0 =
     (let length' = length_buf buffer;
          channels = numberOfChannels buffer;
          rate = sampleRate buffer
      in andThen (writeString 0 ''RIFF'' view0) (\<lambda>view.
         andThen (setUint32 4 (real (36 + length' * channels * 2)) view) (\<lambda>view.
         andThen (writeString 8 ''WAVE'' view) (\<lambda>view.
         andThen (writeString 12 ''fmt '' view) (\<lambda>view.
         andThen (setUint32 16 16 view) (\<lambda>view.
         andThen (setUint16 20 1 view) (\<lambda>view.
         andThen (setUint16 22 (real channels) view) (\<lambda>view.
         andThen (setUint32 24 rate view) (\<lambda>view.
         andThen (setUint32 28 (rate * real channels * 2) view) (\<lambda>view.
         andThen (setUint16 32 (real (channels * 2)) view) (\<lambda>view.
         andThen (setUint16 34 16 view) (\<lambda>view.
         andThen (writeString 36 ''data'' view) (\<lambda>view.
         setUint32 40 (real (length' * channels * 2)) view)))))))))))))"

text \<open>
  The inner loop over the channels at frame \<open>i\<close>, with the state \<open>(view, offset)\<close>. A
  read beyond the channel's array is \<open>undefined\<close>, which the clamp turns into NaN.
\<close>

fun channelLoop ::
  "AudioBuffer \<Rightarrow> nat \<Rightarrow> nat list \<Rightarrow> byte list \<times> nat \<Rightarrow> error + byte list \<times> nat" where
  "channelLoop buffer i [] state = Inr state"
| "channelLoop buffer i (channel # rest) (view, offset) =
     (case getChannelData buffer (int channel) of
        Inl e \<Rightarrow> Inl e
      | Inr data \<Rightarrow>
          (let sample = (if i < length data then Some (max (- 1) (min 1 (data ! i))) else None)
           in case setInt16 offset (map_option (\<lambda>s. s * 32767) sample) view of
                Inl e \<Rightarrow> Inl e
              | Inr view' \<Rightarrow> channelLoop buffer i rest (view', offset + 2)))"

text \<open>The outer loop over the frames.\<close>

fun frameLoop ::
  "AudioBuffer \<Rightarrow> nat list \<Rightarrow> nat list \<Rightarrow> byte list \<times> nat \<Rightarrow> error + byte list \<times> nat" where
  "frameLoop buffer channels [] state = Inr state"
| "frameLoop buffer channels (i # rest) state =
     andThen (channelLoop buffer i channels state) (frameLoop buffer channels rest)"

text \<open>\<open>audioBufferToWav\<close>: a zeroed buffer, the header, the interleaved samples.\<close>

definition audioBufferToWav :: "AudioBuffer \<Rightarrow> error + byte list" where
  "audioBufferToWav buffer =
     (let length' = length_buf buffer;
          channels = numberOfChannels buffer;
          arrayBuffer = replicate (44 + length' * channels * 2) 0
      in andThen (writeHeader buffer arrayBuffer) (\<lambda>view.
         andThen (frameLoop buffer [0..<channels] [0..<length'] (view, 44)) (\<lambda>(view, offset).
         Inr view)))"

text \<open>The integer the spec gives for a sample: \<open>round (clamp (s, -1, 1) * 32767)\<close>.\<close>

definition roundedPcm :: "real \<Rightarrow> int" where
  "roundedPcm s = js_round (max (- 1) (min 1 s) * 32767)"

text \<open>The integer the encoder writes: the clamped, scaled sample, truncated.\<close>

definition truncatedPcm :: "real \<Rightarrow> int" where
  "truncatedPcm s = js_trunc (max (- 1) (min 1 s) * 32767)"

text \<open>One half, in mono, for one frame; and two frames of stereo at 44100 Hz.\<close>

definition halfSample :: AudioBuffer where
  "halfSample =
     \<lparr> numberOfChannels = 1, length_buf = 1, sampleRate = 44100,
       channelSamples = (\<lambda>channel i. 1 / 2) \<rparr>"

definition stereoFrames :: AudioBuffer where
  "stereoFrames =
     \<lparr> numberOfChannels = 2, length_buf = 2, sampleRate = 44100,
       channelSamples = (\<lambda>channel i. if channel = 0 then - 2 else real i / 4) \<rparr>"

definition stereoExample :: AudioBuffer where
  "stereoExample =
     \<lparr> numberOfChannels = 2, length_buf = 3, sampleRate = 44100,
       channelSamples = (\<lambda>channel i. if channel = 0 then 1 / 2 else real i / 4) \<rparr>"

definition monoExample :: AudioBuffer where
  "monoExample =
     \<lparr> numberOfChannels = 1, length_buf = 2, sampleRate = 44100,
       channelSamples = (\<lambda>channel i. 1 / 4) \<rparr>"

section \<open>Energy classifier\<close>

record EnergyAnalysis =
  energy_level :: string
  confidence :: real
  class_id :: nat
  probabilities :: "(string \<times> real) list"

text \<open>The labels of the five-category classifier (\<open>energyDetector.ts\<close>), by class id.\<close>

definition energyLevels :: "string list" where
  "energyLevels = [''Chill Vibe'', ''Lounge'', ''Groove'', ''Party'', ''Club Rager'']"

text \<open>\<open>scores[k] += v\<close>, in double arithmetic.\<close>

definition addScore :: "nat \<Rightarrow> real \<Rightarrow> real list \<Rightarrow> real list" where
  "addScore k v scores = scores[k := addDouble (scores ! k) v]"

text \<open>
  The five accumulated scores of \<open>predictEnergyLevel\<close>, in the order of their class ids,
  from the six features the rules read: the fifteen statements \<open>scores[k] += ...\<close> in
  their order, every operation rounded to a double and every decimal literal the double
  nearest to it.
\<close>

definition categoryScores :: "real \<Rightarrow> real \<Rightarrow> real \<Rightarrow> real \<Rightarrow> real \<Rightarrow> real \<Rightarrow> real list" where
  "categoryScores rms spectralCentroid zcr tempo peakAmplitude beatStrength =
     (let scores = [0, 0, 0, 0, 0];
          scores = addScore 0
            (mulDouble (subDouble 1 (min (divDouble tempo 180) 1)) (roundToDouble 0.3)) scores;
          scores = addScore 0
            (mulDouble (subDouble 1 (min (divDouble rms (roundToDouble 0.5)) 1))
               (roundToDouble 0.3)) scores;
          scores = addScore 0
            (mulDouble (subDouble 1 (min (divDouble spectralCentroid 4000) 1))
               (roundToDouble 0.4)) scores;
          scores = addScore 1
            (mulDouble (subDouble 1 (divDouble \<bar>subDouble tempo 90\<bar> 90))
               (roundToDouble 0.4)) scores;
          scores = addScore 1
            (mulDouble
               (subDouble 1 (divDouble \<bar>subDouble rms (roundToDouble 0.3)\<bar> (roundToDouble 0.3)))
               (roundToDouble 0.3)) scores;
          scores = addScore 1
            (mulDouble (subDouble 1 (min (divDouble zcr (roundToDouble 0.1)) 1))
               (roundToDouble 0.3)) scores;
          scores = addScore 2
            (mulDouble (subDouble 1 (divDouble \<bar>subDouble tempo 120\<bar> 120))
               (roundToDouble 0.4)) scores;
          scores = addScore 2
            (mulDouble
               (subDouble 1 (divDouble \<bar>subDouble rms (roundToDouble 0.4)\<bar> (roundToDouble 0.4)))
               (roundToDouble 0.3)) scores;
          scores = addScore 2
            (mulDouble (min (divDouble beatStrength (roundToDouble 0.5)) 1)
               (roundToDouble 0.3)) scores;
          scores = addScore 3
            (mulDouble (min (divDouble tempo 180) 1) (roundToDouble 0.4)) scores;
          scores = addScore 3
            (mulDouble (min (divDouble rms (roundToDouble 0.6)) 1) (roundToDouble 0.3)) scores;
          scores = addScore 3
            (mulDouble (min (divDouble spectralCentroid 4000) 1) (roundToDouble 0.3)) scores;
          scores = addScore 4
            (mulDouble (min (divDouble tempo 180) 1) (roundToDouble 0.5)) scores;
          scores = addScore 4
            (mulDouble (min (divDouble rms (roundToDouble 0.7)) 1) (roundToDouble 0.3)) scores;
          scores = addScore 4
            (mulDouble (min (divDouble peakAmplitude (roundToDouble 0.8)) 1)
               (roundToDouble 0.2)) scores
      in scores)"

text \<open>
  The search for the best class: \<open>for (let i = 1; i < 5; i++) if (scores[i] > bestScore) ...\<close>,
  over the state \<open>(bestClass, bestScore)\<close>.
\<close>

fun bestLoop :: "real list \<Rightarrow> nat list \<Rightarrow> nat \<times> real \<Rightarrow> nat \<times> real" where
  "bestLoop scores [] best = best"
| "bestLoop scores (i # is) (bestClass, bestScore) =
     (if scores ! i > bestScore
      then bestLoop scores is (i, scores ! i)
      else bestLoop scores is (bestClass, bestScore))"

text \<open>
  \<open>predictEnergyLevel\<close>. The destructuring reads the first ten slots of the vector; a
  vector with fewer slots gives \<open>undefined\<close> features and NaN scores. The total is the
  \<open>reduce\<close> of the scores from 0, and each probability the score divided by it; a total
  of 0 makes every probability \<open>score / 0\<close>, a NaN or an infinity.
\<close>

definition predictEnergyLevel :: "real list \<Rightarrow> error + EnergyAnalysis" where
  "predictEnergyLevel features =
     (if length features < 10 then Inl NonFinite
      else
        let rms = features ! 0; spectralCentroid = features ! 1; zcr = features ! 2;
            tempo = features ! 5; peakAmplitude = features ! 6; beatStrength = features ! 9;
            scores = categoryScores rms spectralCentroid zcr tempo peakAmplitude beatStrength;
            (bestClass, bestScore) = bestLoop scores [1..<5] (0, scores ! 0);
            totalScore = foldl addDouble 0 scores
        in if totalScore = 0 then Inl NonFinite
           else Inr \<lparr> energy_level = energyLevels ! bestClass,
                      confidence = bestScore,
                      class_id = bestClass,
                      probabilities =
                        map (\<lambda>classId. (energyLevels ! classId,
                                          divDouble (scores ! classId) totalScore))
                          [0..<5] \<rparr>)"

text \<open>The largest of the probabilities of an analysis.\<close>

definition maxProbability :: "EnergyAnalysis \<Rightarrow> real" where
  "maxProbability analysis = Max (set (map snd (probabilities analysis)))"

text \<open>
  The feature vector of a silent buffer, padded to 25 slots: every feature is 0 but the
  tempo, which is the default 120.
\<close>

definition silentFeatures :: "real list" where
  "silentFeatures = [0, 0, 0, 0, 0, 120, 0, 0, 0, 0] @ replicate 15 0"

text \<open>The scores and their sum, as \<open>predictEnergyLevel\<close> computes them from a vector.\<close>

definition featureScores :: "real list \<Rightarrow> real list" where
  "featureScores features =
     categoryScores (features ! 0) (features ! 1) (features ! 2)
       (features ! 5) (features ! 6) (features ! 9)"

definition totalScore :: "real list \<Rightarrow> real" where
  "totalScore features = foldl addDouble 0 (featureScores features)"

text \<open>
  A loud, bright, fast track, as doubles: the vector at which Party and Club Rager tie.
\<close>

definition clubFeatures :: "real list" where
  "clubFeatures =
     [roundToDouble 0.7, 4000, roundToDouble 0.1, 0, 0, 180, roundToDouble 0.8, 0, 0, 0.5]
     @ replicate 15 0"

text \<open>
  Two 25-slot vectors outside the range of \<open>extractFeatures\<close>: a tempo of 450, and of the
  double nearest to 450.0000000001, with zeros elsewhere.
\<close>

definition cancellingFeatures :: "real list" where
  "cancellingFeatures = [0, 0, 0, 0, 0, 450, 0, 0, 0, 0] @ replicate 15 0"

definition nearCancellingFeatures :: "real list" where
  "nearCancellingFeatures =
     [0, 0, 0, 0, 0, roundToDouble 450.0000000001, 0, 0, 0, 0] @ replicate 15 0"

text \<open>
  \<open>analyzeEnergy\<close> of the five-category classifier (\<open>energyDetector.ts\<close>):
  \<open>extractFeatures\<close>, then \<open>predictEnergyLevel\<close>, with no \<open>try\<close> around either.
  \<open>extractFeatures\<close> starts by reading channel 0. The ten feature computations that
  follow read only that array and the sample rate, three of them through the platform's
  analyser node; they are the parameter \<open>featureValues\<close> here. The vector is padded with
  zeros to 25 slots and cut to 25.
\<close>

definition extractFeatures ::
  "(real list \<Rightarrow> real \<Rightarrow> real list) \<Rightarrow> AudioBuffer \<Rightarrow> error + real list" where
  "extractFeatures featureValues audioBuffer =
     (case getChannelData audioBuffer 0 of
        Inl e \<Rightarrow> Inl e
      | Inr channelData \<Rightarrow>
          (let features = featureValues channelData (sampleRate audioBuffer)
           in Inr (take 25 (features @ replicate (25 - length features) 0))))"

definition analyzeEnergy ::
  "(real list \<Rightarrow> real \<Rightarrow> real list) \<Rightarrow> AudioBuffer \<Rightarrow> error + EnergyAnalysis" where
  "analyzeEnergy featureValues audioBuffer =
     (case extractFeatures featureValues audioBuffer of
        Inl e \<Rightarrow> Inl e
      | Inr features \<Rightarrow> predictEnergyLevel features)"

subsection \<open>The guarded three-category classifier\<close>

definition energyLevels3 :: "string list" where
  "energyLevels3 = [''Chill'', ''Groove'', ''Club'']"

text \<open>\<open>Array.prototype.indexOf\<close>: the first index of the value, or -1.\<close>

fun indexOf :: "real list \<Rightarrow> real \<Rightarrow> int" where
  "indexOf [] x = - 1"
| "indexOf (y # ys) x =
     (if y = x then 0 else (let k = indexOf ys x in if k < 0 then - 1 else k + 1))"

text \<open>
  \<open>classifyWithTrainedModel\<close> of the guarded variant: four threshold rules, each adding
  its weight to one of three scores. The weights add up to 1, so the total score the
  probabilities are divided by is never 0, and \<open>indexOf\<close> finds the maximum it is given.
\<close>

definition classifyWithTrainedModel :: "real \<Rightarrow> real \<Rightarrow> real \<Rightarrow> real \<Rightarrow> EnergyAnalysis" where
  "classifyWithTrainedModel rms tempo peakAmp brightness =
     (let normRms = min 1 (rms * 3);
          normTempo = max 0 (min 1 ((tempo - 60) / 120));
          normPeak = min 1 (peakAmp * 1.5);
          normBright = max 0 (min 1 ((brightness - 1000) / 6000));
          chillScore = 0 + (if normRms < 0.3 then 0.4 else 0)
                         + (if normTempo < 0.3 then 0.3 else 0)
                         + (if normPeak < 0.4 then 0.2 else 0)
                         + (if normBright < 0.3 then 0.1 else 0);
          grooveScore = 0 + (if \<not> normRms < 0.3 \<and> normRms < 0.6 then 0.4 else 0)
                          + (if \<not> normTempo < 0.3 \<and> normTempo < 0.7 then 0.3 else 0)
                          + (if \<not> normPeak < 0.4 \<and> normPeak < 0.7 then 0.2 else 0)
                          + (if \<not> normBright < 0.3 \<and> normBright < 0.7 then 0.1 else 0);
          clubScore = 0 + (if \<not> normRms < 0.3 \<and> \<not> normRms < 0.6 then 0.4 else 0)
                        + (if \<not> normTempo < 0.3 \<and> \<not> normTempo < 0.7 then 0.3 else 0)
                        + (if \<not> normPeak < 0.4 \<and> \<not> normPeak < 0.7 then 0.2 else 0)
                        + (if \<not> normBright < 0.3 \<and> \<not> normBright < 0.7 then 0.1 else 0);
          totalScore = chillScore + grooveScore + clubScore;
          probabilities = [chillScore / totalScore, grooveScore / totalScore, clubScore / totalScore];
          bestIdx = nat (indexOf probabilities
                      (max (probabilities ! 0) (max (probabilities ! 1) (probabilities ! 2))));
          confidence = probabilities ! bestIdx
      in \<lparr> energy_level = energyLevels3 ! bestIdx,
           confidence = confidence,
           class_id = bestIdx,
           probabilities = map (\<lambda>i. (energyLevels3 ! i, probabilities ! i)) [0..<3] \<rparr>)"

text \<open>
  The sampling loop of the guarded \<open>analyzeEnergy\<close>:
  \<open>for (let i = 0; i < data.length && sampleCount < sampleSize; i += step)\<close>, over the
  state \<open>(sumSquares, peakAmp, sampleCount)\<close>.
\<close>

function sampleLoop ::
  "real list \<Rightarrow> nat \<Rightarrow> nat \<Rightarrow> nat \<Rightarrow> real \<times> real \<times> nat \<Rightarrow> real \<times> real \<times> nat" where
  "sampleLoop data sampleSize step i (sumSquares, peakAmp, sampleCount) =
     (if i < length data \<and> sampleCount < sampleSize
      then (let sample = data ! i;
                absVal = \<bar>sample\<bar>
            in sampleLoop data sampleSize step (i + step)
                 (sumSquares + sample * sample,
                  (if absVal > peakAmp then absVal else peakAmp),
                  sampleCount + 1))
      else (sumSquares, peakAmp, sampleCount))"
  by pat_completeness auto
termination
  by (relation "measure (\<lambda>(data, sampleSize, step, i, sumSquares, peakAmp, sampleCount).
        sampleSize - sampleCount)") auto

text \<open>
  The \<open>try\<close> block of the guarded \<open>analyzeEnergy\<close>; \<open>None\<close> is a null or undefined
  buffer. The loop runs at least once on a non-empty array, so the count the sum of
  squares is divided by is positive.
\<close>

definition analyzeEnergyTry :: "AudioBuffer option \<Rightarrow> error + EnergyAnalysis" where
  "analyzeEnergyTry audioBufferOpt =
     (case audioBufferOpt of
        None \<Rightarrow> Inl (Error ''Invalid audio buffer provided'')
      | Some audioBuffer \<Rightarrow>
          if length_buf audioBuffer = 0 then Inl (Error ''Invalid audio buffer provided'')
          else if numberOfChannels audioBuffer = 0 then Inl (Error ''Audio buffer has no channels'')
          else
            (case getChannelData audioBuffer 0 of
               Inl e \<Rightarrow> Inl e
             | Inr data \<Rightarrow>
                 if length data = 0 then Inl (Error ''No audio data available'')
                 else
                   let sampleSize = min 10000 (length data);
                       step = max 1 (length data div sampleSize);
                       (sumSquares, peakAmp, sampleCount) = sampleLoop data sampleSize step 0 (0, 0, 0);
                       rms = sqrt (sumSquares / real sampleCount);
                       tempo = (if rms < 0.1 then 80 else if rms < 0.3 then 120 else 150);
                       brightness = peakAmp * 3000 + 1000
                   in Inr (classifyWithTrainedModel rms tempo peakAmp brightness)))"

text \<open>The analysis the \<open>catch\<close> block returns.\<close>

definition fallbackAnalysis :: EnergyAnalysis where
  "fallbackAnalysis =
     \<lparr> energy_level = ''Groove'', confidence = 0.5, class_id = 1,
       probabilities = [(''Chill'', 0.33), (''Groove'', 0.34), (''Club'', 0.33)] \<rparr>"

text \<open>
  The guarded \<open>analyzeEnergy\<close>: whatever the \<open>try\<close> block throws is caught and
  answered with the fallback analysis.
\<close>

definition analyzeEnergyGuarded :: "AudioBuffer option \<Rightarrow> EnergyAnalysis" where
  "analyzeEnergyGuarded audioBufferOpt =
     (case analyzeEnergyTry audioBufferOpt of
        Inl e \<Rightarrow> fallbackAnalysis
      | Inr analysis \<Rightarrow> analysis)"

text \<open>Malformed and well-formed example buffers.\<close>

definition noChannels :: AudioBuffer where
  "noChannels =
     \<lparr> numberOfChannels = 0, length_buf = 4, sampleRate = 44100,
       channelSamples = (\<lambda>channel i. 0) \<rparr>"

definition noSamples :: AudioBuffer where
  "noSamples =
     \<lparr> numberOfChannels = 1, length_buf = 0, sampleRate = 44100,
       channelSamples = (\<lambda>channel i. 0) \<rparr>"

definition silence :: AudioBuffer where
  "silence =
     \<lparr> numberOfChannels = 1, length_buf = 3, sampleRate = 44100,
       channelSamples = (\<lambda>channel i. 0) \<rparr>"

definition silentValues :: "real list \<Rightarrow> real \<Rightarrow> real list" where
  "silentValues channelData rate = [0, 0, 0, 0, 0, 120, 0, 0, 0, 0]"

section \<open>Doubles: rounding error, bounds and monotonicity\<close>

text \<open>The rounding without negative powers, as it is evaluated.\<close>

lemma roundToDouble_code:
  "roundToDouble x =
     (if x = 0 then 0
      else let e = max (exponent x) (- 1022)
           in if e \<le> 52 then real_of_int (roundEven (x * 2 ^ nat (52 - e))) / 2 ^ nat (52 - e)
              else real_of_int (roundEven (x / 2 ^ nat (e - 52))) * 2 ^ nat (e - 52))"
proof -
  have a: "2 powi (e - 52) = 1 / (2::real) ^ nat (52 - e)" if "e \<le> 52" for e :: int
  proof -
    have "(2::real) powi (e - 52) = 2 powi (- int (nat (52 - e)))"
      using that by simp
    also have "\<dots> = 1 / 2 ^ nat (52 - e)"
      by (simp only: power_int_minus power_int_of_nat inverse_eq_divide)
    finally show ?thesis .
  qed
  have b: "2 powi (e - 52) = (2::real) ^ nat (e - 52)" if "\<not> e \<le> 52" for e :: int
  proof -
    have "(2::real) powi (e - 52) = 2 powi (int (nat (e - 52)))"
      using that by simp
    then show ?thesis by (simp only: power_int_of_nat)
  qed
  show ?thesis
    by (simp add: roundToDouble_def Let_def a b)
qed


text \<open>The exponent is the one that brackets the number.\<close>

lemma bitLength_bounds:
  assumes "0 < n"
  shows "2 ^ (bitLength n - 1) \<le> n \<and> n < 2 ^ bitLength n"
  using assms
proof (induction n rule: bitLength.induct)
  case (1 n)
  show ?case
  proof (cases "n div 2 = 0")
    case True
    with 1(2) have "n = 1" by (simp add: div_eq_0_iff)
    then show ?thesis by (simp add: bitLength.simps)
  next
    case False
    with 1 have IH: "2 ^ (bitLength (n div 2) - 1) \<le> n div 2 \<and> n div 2 < 2 ^ bitLength (n div 2)"
      by simp
    from False have pos: "0 < bitLength (n div 2)"
      by (subst bitLength.simps) simp
    have b: "bitLength n = Suc (bitLength (n div 2))"
      using 1(2) by (subst bitLength.simps) simp
    from pos have "(2::nat) ^ bitLength (n div 2) = 2 * 2 ^ (bitLength (n div 2) - 1)"
      by (cases "bitLength (n div 2)") simp_all
    with IH show ?thesis
      unfolding b by simp linarith
  qed
qed

lemma exponent_bounds:
  assumes "x \<noteq> 0"
  shows "2 powi exponent x \<le> \<bar>x\<bar> \<and> \<bar>x\<bar> < 2 powi (exponent x + 1)"
proof (cases "1 \<le> \<bar>x\<bar>")
  case True
  define n where "n = nat \<lfloor>\<bar>x\<bar>\<rfloor>"
  from True have n: "0 < n" "real n \<le> \<bar>x\<bar>" "\<bar>x\<bar> < real n + 1"
    unfolding n_def by linarith+
  from bitLength_bounds [OF n(1)] have b: "2 ^ (bitLength n - 1) \<le> n" "n < 2 ^ bitLength n"
    by simp_all
  from n(1) have pos: "0 < bitLength n"
    by (subst bitLength.simps) simp
  from True have e: "exponent x = int (bitLength n - 1)"
    using pos by (simp add: exponent_def n_def)
  have e1: "exponent x + 1 = int (bitLength n)"
    using pos e by simp
  have "(2::real) powi exponent x = 2 ^ (bitLength n - 1)"
    by (simp only: e power_int_of_nat)
  also have "\<dots> \<le> real n"
    using of_nat_mono [OF b(1), where 'a = real] by simp
  finally have lo: "2 powi exponent x \<le> \<bar>x\<bar>"
    using n(2) by linarith
  have "Suc n \<le> 2 ^ bitLength n"
    using b(2) by simp
  from of_nat_mono [OF this, where 'a = real] have "real n + 1 \<le> 2 ^ bitLength n"
    by simp
  also have "\<dots> = (2::real) powi (exponent x + 1)"
    by (simp only: e1 power_int_of_nat)
  finally show ?thesis
    using lo n(3) by linarith
next
  case False
  with assms have x: "0 < \<bar>x\<bar>" "\<bar>x\<bar> < 1" by simp_all
  then have inv: "1 < 1 / \<bar>x\<bar>" by simp
  define m where "m = nat \<lceil>1 / \<bar>x\<bar>\<rceil> - 1"
  from inv have c: "2 \<le> \<lceil>1 / \<bar>x\<bar>\<rceil>" by linarith
  then have m: "0 < m" "real m < 1 / \<bar>x\<bar>" "1 / \<bar>x\<bar> \<le> real m + 1"
    unfolding m_def by linarith+
  define k where "k = bitLength m"
  from bitLength_bounds [OF m(1)] have b: "2 ^ (k - 1) \<le> m" "m < 2 ^ k"
    by (simp_all add: k_def)
  from m(1) have pos: "0 < k"
    unfolding k_def by (subst bitLength.simps) simp
  from False have e: "exponent x = - int k"
    by (simp add: exponent_def m_def k_def)
  have "Suc m \<le> 2 ^ k"
    using b(2) by simp
  from of_nat_mono [OF this, where 'a = real] have "real m + 1 \<le> 2 ^ k"
    by simp
  with m(3) have "1 / \<bar>x\<bar> \<le> 2 ^ k" by linarith
  with x(1) have "1 \<le> 2 ^ k * \<bar>x\<bar>"
    by (simp only: pos_divide_le_eq)
  then have "1 / 2 ^ k \<le> \<bar>x\<bar>"
    by (simp add: pos_divide_le_eq mult.commute)
  moreover have "(2::real) powi exponent x = 1 / 2 ^ k"
    by (simp only: e power_int_minus power_int_of_nat inverse_eq_divide)
  ultimately have lo: "2 powi exponent x \<le> \<bar>x\<bar>" by simp
  have "(2::real) ^ (k - 1) \<le> real m"
    using of_nat_mono [OF b(1), where 'a = real] by simp
  with m(2) have "2 ^ (k - 1) < 1 / \<bar>x\<bar>" by linarith
  with x(1) have "2 ^ (k - 1) * \<bar>x\<bar> < 1"
    by (simp only: pos_less_divide_eq)
  then have "\<bar>x\<bar> < 1 / 2 ^ (k - 1)"
    by (simp add: pos_less_divide_eq mult.commute)
  moreover have "(2::real) powi (exponent x + 1) = 1 / 2 ^ (k - 1)"
  proof -
    from pos have "exponent x + 1 = - int (k - 1)"
      using e by simp
    then show ?thesis
      by (simp only: power_int_minus power_int_of_nat inverse_eq_divide)
  qed
  ultimately show ?thesis
    using lo by simp
qed

lemma power_int_2_less_cancel:
  assumes "(2::real) powi a < 2 powi b"
  shows "a < b"
proof (rule ccontr)
  assume "\<not> a < b"
  then have "b \<le> a" by simp
  then have "(2::real) powi b \<le> 2 powi a"
    by (rule power_int_increasing) simp
  with assms show False by simp
qed

lemma exponent_le:
  assumes "x \<noteq> 0" "\<bar>x\<bar> \<le> 2 powi k"
  shows "exponent x \<le> k"
proof -
  from exponent_bounds [OF assms(1)] assms(2) have "(2::real) powi exponent x \<le> 2 powi k"
    by linarith
  moreover have "(2::real) powi k < 2 powi (k + 1)"
    by (simp add: power_int_add)
  ultimately have "(2::real) powi exponent x < 2 powi (k + 1)" by linarith
  from power_int_2_less_cancel [OF this] show ?thesis by simp
qed

lemma exponent_ge:
  assumes "2 powi k \<le> \<bar>x\<bar>"
  shows "k \<le> exponent x"
proof -
  have "(0::real) < 2 powi k" by simp
  with assms have "0 < \<bar>x\<bar>" by linarith
  then have "x \<noteq> 0" by simp
  from exponent_bounds [OF this] assms have "(2::real) powi k < 2 powi (exponent x + 1)"
    by linarith
  from power_int_2_less_cancel [OF this] show ?thesis by simp
qed

text \<open>Rounding to an integer moves a number by at most 1/2 and keeps it on its side of every integer.\<close>

lemma roundEven_close: "\<bar>real_of_int (roundEven y) - y\<bar> \<le> 1 / 2"
  unfolding roundEven_def Let_def by (auto; linarith)

lemma roundEven_ge:
  assumes "real_of_int n \<le> y"
  shows "n \<le> roundEven y"
proof -
  from assms have "n \<le> \<lfloor>y\<rfloor>" by (simp add: le_floor_iff)
  moreover have "\<lfloor>y\<rfloor> \<le> roundEven y"
    by (simp add: roundEven_def Let_def)
  ultimately show ?thesis by simp
qed

lemma roundEven_le:
  assumes "y \<le> real_of_int n"
  shows "roundEven y \<le> n"
proof (cases "y = real_of_int \<lfloor>y\<rfloor>")
  case True
  then have "roundEven y = \<lfloor>y\<rfloor>"
    by (simp add: roundEven_def Let_def)
  moreover from assms have "\<lfloor>y\<rfloor> \<le> n" by linarith
  ultimately show ?thesis by simp
next
  case False
  then have "real_of_int \<lfloor>y\<rfloor> < y" by linarith
  with assms have "\<lfloor>y\<rfloor> < n" by linarith
  moreover have "roundEven y \<le> \<lfloor>y\<rfloor> + 1"
    by (simp add: roundEven_def Let_def)
  ultimately show ?thesis by simp
qed


text \<open>The error of a rounding: half a unit in the last place.\<close>

lemma roundToDouble_ulp:
  assumes "x \<noteq> 0"
  defines "u \<equiv> 2 powi (max (exponent x) (- 1022) - 52)"
  shows "roundToDouble x = real_of_int (roundEven (x / u)) * u" "0 < u"
  using assms by (simp_all add: roundToDouble_def Let_def)

lemma roundToDouble_error:
  assumes "\<bar>x\<bar> \<le> 2 powi k" "- 1022 \<le> k"
  shows "\<bar>roundToDouble x - x\<bar> \<le> 2 powi (k - 53)"
proof (cases "x = 0")
  case True
  then show ?thesis by (simp add: roundToDouble_def)
next
  case False
  define e where "e = max (exponent x) (- 1022)"
  define u :: real where "u = 2 powi (e - 52)"
  have u: "0 < u" by (simp add: u_def)
  have r: "roundToDouble x = real_of_int (roundEven (x / u)) * u"
    using False by (simp add: roundToDouble_def Let_def u_def e_def)
  from exponent_le [OF False assms(1)] assms(2) have ek: "e \<le> k"
    by (simp add: e_def)
  have "roundToDouble x - x = (real_of_int (roundEven (x / u)) - x / u) * u"
    using u by (simp add: r algebra_simps)
  then have "\<bar>roundToDouble x - x\<bar> = \<bar>real_of_int (roundEven (x / u)) - x / u\<bar> * u"
    using u by (simp add: abs_mult)
  also have "\<dots> \<le> 1 / 2 * u"
    using roundEven_close [of "x / u"] u by (intro mult_right_mono) simp_all
  also have "\<dots> = 2 powi (e - 53)"
  proof -
    have "(2::real) powi (e - 52) = 2 powi (e - 53 + 1)" by simp
    also have "\<dots> = 2 powi (e - 53) * 2"
      by (rule power_int_add_1) simp
    finally show ?thesis by (simp add: u_def)
  qed
  also have "\<dots> \<le> 2 powi (k - 53)"
    by (rule power_int_increasing) (use ek in simp_all)
  finally show ?thesis .
qed

text \<open>Rounding keeps the sign, and a number on its side of every power of two.\<close>

lemma roundToDouble_nonneg:
  assumes "0 \<le> x"
  shows "0 \<le> roundToDouble x"
proof (cases "x = 0")
  case True
  then show ?thesis by (simp add: roundToDouble_def)
next
  case False
  define u :: real where "u = 2 powi (max (exponent x) (- 1022) - 52)"
  have u: "0 < u" by (simp add: u_def)
  have r: "roundToDouble x = real_of_int (roundEven (x / u)) * u"
    using False by (simp add: roundToDouble_def Let_def u_def)
  from assms u have "real_of_int 0 \<le> x / u" by simp
  from roundEven_ge [OF this] have "0 \<le> real_of_int (roundEven (x / u))" by simp
  with u show ?thesis unfolding r by simp
qed

lemma roundToDouble_nonpos:
  assumes "x \<le> 0"
  shows "roundToDouble x \<le> 0"
proof (cases "x = 0")
  case True
  then show ?thesis by (simp add: roundToDouble_def)
next
  case False
  define u :: real where "u = 2 powi (max (exponent x) (- 1022) - 52)"
  have u: "0 < u" by (simp add: u_def)
  have r: "roundToDouble x = real_of_int (roundEven (x / u)) * u"
    using False by (simp add: roundToDouble_def Let_def u_def)
  from assms u have "x / u \<le> real_of_int 0" by (simp add: divide_nonpos_pos)
  from roundEven_le [OF this] have "real_of_int (roundEven (x / u)) \<le> 0" by simp
  with u show ?thesis unfolding r by (simp add: mult_nonpos_nonneg)
qed

lemma roundToDouble_ge_power:
  assumes "2 powi k \<le> x" "- 1022 \<le> k"
  shows "2 powi k \<le> roundToDouble x"
proof -
  have "(0::real) < 2 powi k" by simp
  with assms(1) have pos: "0 < x" by linarith
  then have nz: "x \<noteq> 0" and ax: "\<bar>x\<bar> = x" by simp_all
  define e where "e = exponent x"
  from exponent_ge [of k x] assms(1) ax have ke: "k \<le> e" by (simp add: e_def)
  with assms(2) have m: "max (exponent x) (- 1022) = e" by (simp add: e_def)
  define u :: real where "u = 2 powi (e - 52)"
  have u: "0 < u" by (simp add: u_def)
  have r: "roundToDouble x = real_of_int (roundEven (x / u)) * u"
    using nz by (simp add: roundToDouble_def Let_def u_def m)
  from exponent_bounds [OF nz] ax have lo: "2 powi e \<le> x" by (simp add: e_def)
  have split: "(2::real) powi e = 2 ^ 52 * u"
  proof -
    have "(2::real) powi e = 2 powi (int 52 + (e - 52))" by simp
    also have "\<dots> = 2 powi (int 52) * 2 powi (e - 52)"
      by (rule power_int_add) simp
    finally show ?thesis by (simp add: u_def)
  qed
  from lo have "2 ^ 52 * u \<le> x" by (simp only: split)
  with u have "2 ^ 52 \<le> x / u" by (simp add: pos_le_divide_eq)
  then have "real_of_int (2 ^ 52) \<le> x / u" by simp
  from roundEven_ge [OF this] have "2 ^ 52 \<le> real_of_int (roundEven (x / u))"
    by (metis of_int_le_iff of_int_numeral of_int_power)
  with u have "2 ^ 52 * u \<le> roundToDouble x"
    unfolding r by (intro mult_right_mono) simp_all
  then have "2 powi e \<le> roundToDouble x" by (simp only: split)
  moreover have "(2::real) powi k \<le> 2 powi e"
    by (rule power_int_increasing) (use ke in simp_all)
  ultimately show ?thesis by linarith
qed

lemma roundToDouble_le_power:
  assumes "x \<le> 2 powi k" "- 1022 \<le> k"
  shows "roundToDouble x \<le> 2 powi k"
proof (cases "x \<le> 0")
  case True
  from roundToDouble_nonpos [OF this] have "roundToDouble x \<le> 0" .
  moreover have "(0::real) < 2 powi k" by simp
  ultimately show ?thesis by linarith
next
  case False
  then have nz: "x \<noteq> 0" and ax: "\<bar>x\<bar> = x" by simp_all
  define e where "e = max (exponent x) (- 1022)"
  from exponent_le [OF nz, of k] assms ax have ek: "e \<le> k" by (simp add: e_def)
  define u :: real where "u = 2 powi (e - 52)"
  have u: "0 < u" by (simp add: u_def)
  have r: "roundToDouble x = real_of_int (roundEven (x / u)) * u"
    using nz by (simp add: roundToDouble_def Let_def u_def e_def)
  define n where "n = nat (k - e + 52)"
  have split: "(2::real) powi k = 2 ^ n * u"
  proof -
    have "k = int n + (e - 52)" using ek by (simp add: n_def)
    then have "(2::real) powi k = 2 powi (int n + (e - 52))" by simp
    also have "\<dots> = 2 powi (int n) * 2 powi (e - 52)"
      by (rule power_int_add) simp
    finally show ?thesis by (simp add: u_def)
  qed
  from assms(1) have "x \<le> 2 ^ n * u" by (simp only: split)
  with u have "x / u \<le> 2 ^ n" by (simp add: pos_divide_le_eq)
  then have "x / u \<le> real_of_int (2 ^ n)" by simp
  from roundEven_le [OF this] have "real_of_int (roundEven (x / u)) \<le> 2 ^ n"
    by (metis of_int_le_iff of_int_numeral of_int_power)
  with u have "roundToDouble x \<le> 2 ^ n * u"
    unfolding r by (intro mult_right_mono) simp_all
  then show ?thesis by (simp only: split)
qed


text \<open>Rounding is monotone and odd.\<close>

lemma roundEven_mono:
  assumes "a \<le> b"
  shows "roundEven a \<le> roundEven b"
proof (cases "\<lfloor>a\<rfloor> = \<lfloor>b\<rfloor>")
  case True
  with assms show ?thesis
    by (auto simp: roundEven_def Let_def)
next
  case False
  with assms have "\<lfloor>a\<rfloor> < \<lfloor>b\<rfloor>"
    using floor_mono [OF assms] by linarith
  moreover have "roundEven a \<le> \<lfloor>a\<rfloor> + 1"
    by (simp add: roundEven_def Let_def)
  moreover have "\<lfloor>b\<rfloor> \<le> roundEven b"
    by (simp add: roundEven_def Let_def)
  ultimately show ?thesis by linarith
qed

lemma roundEven_uminus: "roundEven (- y) = - roundEven y"
proof (cases "y = real_of_int \<lfloor>y\<rfloor>")
  case True
  then have "\<lfloor>- y\<rfloor> = - \<lfloor>y\<rfloor>"
    by (metis floor_of_int of_int_minus)
  with True show ?thesis
    by (simp add: roundEven_def Let_def)
next
  case False
  then have lt: "real_of_int \<lfloor>y\<rfloor> < y" by linarith
  have "y < real_of_int \<lfloor>y\<rfloor> + 1" by linarith
  with lt have f: "\<lfloor>- y\<rfloor> = - \<lfloor>y\<rfloor> - 1"
    by (intro floor_unique) (simp_all, linarith+)
  have r: "- y - real_of_int (- \<lfloor>y\<rfloor> - 1) = 1 - (y - real_of_int \<lfloor>y\<rfloor>)"
    by simp
  have e: "even (- \<lfloor>y\<rfloor> - 1) = odd \<lfloor>y\<rfloor>"
    by simp
  show ?thesis
    unfolding roundEven_def Let_def f r e by (auto; linarith)
qed

lemma exponent_uminus: "exponent (- x) = exponent x"
  by (simp add: exponent_def)

lemma roundToDouble_uminus: "roundToDouble (- x) = - roundToDouble x"
  by (simp add: roundToDouble_def Let_def exponent_uminus roundEven_uminus)

lemma roundToDouble_mono_pos:
  assumes "0 < x" "x \<le> y"
  shows "roundToDouble x \<le> roundToDouble y"
proof -
  from assms have nz: "x \<noteq> 0" "y \<noteq> 0" and ax: "\<bar>x\<bar> = x" "\<bar>y\<bar> = y" by simp_all
  define ex where "ex = max (exponent x) (- 1022)"
  define ey where "ey = max (exponent y) (- 1022)"
  from exponent_bounds [OF nz(1)] exponent_bounds [OF nz(2)] assms(2) ax
  have "(2::real) powi exponent x < 2 powi (exponent y + 1)" by linarith
  from power_int_2_less_cancel [OF this] have "exponent x \<le> exponent y" by simp
  then have le: "ex \<le> ey" by (simp add: ex_def ey_def)
  show ?thesis
  proof (cases "ex = ey")
    case True
    define u :: real where "u = 2 powi (ex - 52)"
    have u: "0 < u" by (simp add: u_def)
    have rx: "roundToDouble x = real_of_int (roundEven (x / u)) * u"
      using nz by (simp add: roundToDouble_def Let_def u_def ex_def)
    have ry: "roundToDouble y = real_of_int (roundEven (y / u)) * u"
      using nz True by (simp add: roundToDouble_def Let_def u_def ey_def)
    from assms(2) u have "x / u \<le> y / u" by (simp add: divide_right_mono)
    from roundEven_mono [OF this] u show ?thesis
      unfolding rx ry by (intro mult_right_mono) simp_all
  next
    case False
    with le have lt: "ex < ey" by simp
    then have ey: "ey = exponent y" "- 1022 \<le> exponent y" "- 1022 \<le> ex + 1"
      unfolding ex_def ey_def by linarith+
    from exponent_bounds [OF nz(1)] ax have "x \<le> 2 powi (exponent x + 1)" by simp
    also have "\<dots> \<le> 2 powi (ex + 1)"
      by (rule power_int_increasing) (simp_all add: ex_def)
    finally have "x \<le> 2 powi (ex + 1)" .
    from roundToDouble_le_power [OF this ey(3)] have "roundToDouble x \<le> 2 powi (ex + 1)" .
    also have "\<dots> \<le> 2 powi exponent y"
      by (rule power_int_increasing) (use lt ey in simp_all)
    also from exponent_bounds [OF nz(2)] ax have "2 powi exponent y \<le> y" by simp
    from roundToDouble_ge_power [OF this ey(2)] have "2 powi exponent y \<le> roundToDouble y" .
    finally show ?thesis .
  qed
qed

lemma roundToDouble_mono:
  assumes "x \<le> y"
  shows "roundToDouble x \<le> roundToDouble y"
proof -
  consider "0 < x" | "x \<le> 0" "0 \<le> y" | "y < 0" by linarith
  then show ?thesis
  proof cases
    case 1
    from roundToDouble_mono_pos [OF this assms] show ?thesis .
  next
    case 2
    from roundToDouble_nonpos [OF 2(1)] roundToDouble_nonneg [OF 2(2)] show ?thesis
      by linarith
  next
    case 3
    with assms have "0 < - y" "- y \<le> - x" by simp_all
    from roundToDouble_mono_pos [OF this] show ?thesis
      by (simp add: roundToDouble_uminus)
  qed
qed

lemma divDouble_mono:
  assumes "a \<le> b" "0 < c"
  shows "divDouble a c \<le> divDouble b c"
  unfolding divDouble_def by (rule roundToDouble_mono) (use assms in \<open>simp add: divide_right_mono\<close>)

text \<open>The equations that evaluate an expression in doubles.\<close>

lemmas double_eval =
  addDouble_def subDouble_def mulDouble_def divDouble_def
  roundToDouble_code exponent_def bitLength.simps roundEven_def Let_def

text \<open>The error and the bounds at the magnitudes that occur.\<close>

lemma roundToDouble_error_16:
  assumes "\<bar>x\<bar> \<le> 16"
  shows "\<bar>roundToDouble x - x\<bar> \<le> 1 / 2 ^ 49"
proof -
  have "\<bar>x\<bar> \<le> 2 powi 4" using assms by simp
  from roundToDouble_error [OF this] have "\<bar>roundToDouble x - x\<bar> \<le> 2 powi (4 - 53)" by simp
  also have "(2::real) powi (4 - 53) = 1 / 2 ^ 49"
    by (simp add: power_int_def power_divide)
  finally show ?thesis .
qed

lemma roundToDouble_ge_1:
  assumes "1 \<le> x"
  shows "1 \<le> roundToDouble x"
  using roundToDouble_ge_power [of 0 x] assms by simp

lemma roundToDouble_ge_4:
  assumes "4 \<le> x"
  shows "4 \<le> roundToDouble x"
  using roundToDouble_ge_power [of 2 x] assms by simp

lemma roundToDouble_le_1:
  assumes "x \<le> 1"
  shows "roundToDouble x \<le> 1"
  using roundToDouble_le_power [of x 0] assms by simp

text \<open>The doubles of the literals 0.04 and 0.35.\<close>

lemma double_004:
  "roundToDouble 0.04 = 5764607523034235 / 2 ^ 57"
  "roundToDouble (1 / 25) = 5764607523034235 / 2 ^ 57"
  by (simp_all add: double_eval)

lemma double_035:
  "roundToDouble 0.35 = 6305039478318694 / 2 ^ 54"
  "roundToDouble (7 / 20) = 6305039478318694 / 2 ^ 54"
  by (simp_all add: double_eval)

lemma mulDouble_nonneg:
  assumes "0 \<le> a" "0 \<le> b"
  shows "0 \<le> mulDouble a b"
  unfolding mulDouble_def by (rule roundToDouble_nonneg) (use assms in simp)


lemma roundToDouble_error_512:
  assumes "\<bar>x\<bar> \<le> 512"
  shows "\<bar>roundToDouble x - x\<bar> \<le> 1 / 2 ^ 44"
proof -
  have "\<bar>x\<bar> \<le> 2 powi 9" using assms by simp
  from roundToDouble_error [OF this] have "\<bar>roundToDouble x - x\<bar> \<le> 2 powi (9 - 53)" by simp
  also have "(2::real) powi (9 - 53) = 1 / 2 ^ 44"
    by (simp add: power_int_def power_divide)
  finally show ?thesis .
qed

lemma roundToDouble_error_1:
  assumes "\<bar>x\<bar> \<le> 1"
  shows "\<bar>roundToDouble x - x\<bar> \<le> 1 / 2 ^ 53"
proof -
  have "\<bar>x\<bar> \<le> 2 powi 0" using assms by simp
  from roundToDouble_error [OF this] have "\<bar>roundToDouble x - x\<bar> \<le> 2 powi (0 - 53)" by simp
  also have "(2::real) powi (0 - 53) = 1 / 2 ^ 53"
    by (simp add: power_int_def power_divide)
  finally show ?thesis .
qed

text \<open>An operation on nearby arguments gives a nearby result.\<close>

lemma abs_triangle_le:
  fixes x y z :: real
  assumes "\<bar>x - y\<bar> \<le> e1" "\<bar>y - z\<bar> \<le> e2" "e1 + e2 \<le> e"
  shows "\<bar>x - z\<bar> \<le> e"
  using assms by linarith

lemma addDouble_close:
  assumes "\<bar>a' - a\<bar> \<le> da" "\<bar>b' - b\<bar> \<le> db" "\<bar>a' + b'\<bar> \<le> 16"
  shows "\<bar>addDouble a' b' - (a + b)\<bar> \<le> da + db + 1 / 2 ^ 49"
  using roundToDouble_error_16 [OF assms(3)] assms(1,2) unfolding addDouble_def by linarith

lemma subDouble_close:
  assumes "\<bar>a' - a\<bar> \<le> da" "\<bar>b' - b\<bar> \<le> db" "\<bar>a' - b'\<bar> \<le> 16"
  shows "\<bar>subDouble a' b' - (a - b)\<bar> \<le> da + db + 1 / 2 ^ 49"
  using roundToDouble_error_16 [OF assms(3)] assms(1,2) unfolding subDouble_def by linarith

lemma mulDouble_close:
  assumes a: "\<bar>a' - a\<bar> \<le> d" "\<bar>a\<bar> \<le> 4" "d \<le> 1"
    and w: "\<bar>w' - w\<bar> \<le> 1 / 2 ^ 53" "0 \<le> w" "w \<le> 1"
  shows "\<bar>mulDouble a' w' - a * w\<bar> \<le> 2 * d + 1 / 2 ^ 48"
proof -
  from a(1) have d0: "0 \<le> d" by linarith
  have tiny: "(1::real) / 2 ^ 53 \<le> 1" by simp
  have w': "\<bar>w'\<bar> \<le> 2" using w tiny by linarith
  have a': "\<bar>a'\<bar> \<le> 5" using a by linarith
  have "\<bar>a' * w'\<bar> \<le> 5 * 2"
    unfolding abs_mult by (rule mult_mono [OF a' w']) simp_all
  then have "\<bar>a' * w'\<bar> \<le> 16" by simp
  from roundToDouble_error_16 [OF this]
  have r: "\<bar>mulDouble a' w' - a' * w'\<bar> \<le> 1 / 2 ^ 49" by (simp only: mulDouble_def)
  have "\<bar>(a' - a) * w'\<bar> \<le> d * 2"
    unfolding abs_mult by (rule mult_mono [OF a(1) w' d0]) simp
  moreover have "\<bar>a * (w' - w)\<bar> \<le> 4 * (1 / 2 ^ 53)"
    unfolding abs_mult by (rule mult_mono [OF a(2) w(1)]) simp_all
  moreover have "a' * w' - a * w = (a' - a) * w' + a * (w' - w)"
    by (simp add: algebra_simps)
  ultimately have "\<bar>a' * w' - a * w\<bar> \<le> d * 2 + 4 * (1 / 2 ^ 53)"
    by linarith
  from abs_triangle_le [OF r this] show ?thesis by simp
qed

lemma divDouble_close:
  assumes c: "1 / 10 \<le> c" "\<bar>c' - c\<bar> \<le> 1 / 2 ^ 53"
    and x: "\<bar>x' - x\<bar> \<le> d" "\<bar>x\<bar> \<le> 4 * c" "d \<le> 1"
  shows "\<bar>divDouble x' c' - x / c\<bar> \<le> 16 * d + 1 / 2 ^ 44"
proof -
  from x(1) have d0: "0 \<le> d" by linarith
  have tiny: "(1::real) / 2 ^ 53 \<le> 1 / 100" by simp
  from c tiny have c': "9 / 100 \<le> c'" and cpos: "0 < c" "0 < c'" by linarith+
  have inv: "1 / c' \<le> 100 / 9"
    using c' cpos by (simp add: field_simps)
  have "\<bar>x'\<bar> \<le> 16 * c'" using x c tiny by linarith
  then have "\<bar>x' / c'\<bar> \<le> 16"
    using cpos by (simp add: pos_divide_le_eq)
  from roundToDouble_error_16 [OF this]
  have r: "\<bar>divDouble x' c' - x' / c'\<bar> \<le> 1 / 2 ^ 49" by (simp only: divDouble_def)
  have e1: "\<bar>(x' - x) / c'\<bar> \<le> d * (100 / 9)"
  proof -
    have "\<bar>(x' - x) / c'\<bar> = \<bar>x' - x\<bar> * (1 / c')" using cpos by (simp add: abs_divide)
    also have "\<dots> \<le> d * (100 / 9)"
      by (rule mult_mono [OF x(1) inv d0]) (use cpos in simp)
    finally show ?thesis .
  qed
  have e2: "\<bar>(x / c) * ((c - c') / c')\<bar> \<le> 4 * (1 / 2 ^ 53 * (100 / 9))"
  proof -
    have q: "\<bar>x / c\<bar> \<le> 4" using x(2) cpos by (simp add: pos_divide_le_eq)
    have "\<bar>(c - c') / c'\<bar> = \<bar>c - c'\<bar> * (1 / c')" using cpos by (simp add: abs_divide)
    also have "\<dots> \<le> 1 / 2 ^ 53 * (100 / 9)"
      by (rule mult_mono [OF _ inv]) (use c cpos in \<open>simp_all add: abs_minus_commute\<close>)
    finally have "\<bar>(c - c') / c'\<bar> \<le> 1 / 2 ^ 53 * (100 / 9)" .
    with q show ?thesis
      unfolding abs_mult [of "x / c"] by (intro mult_mono) simp_all
  qed
  have "x' / c' - x / c = (x' - x) / c' + (x / c) * ((c - c') / c')"
    using cpos by (simp add: field_simps)
  with e1 e2 have "\<bar>x' / c' - x / c\<bar> \<le> d * (100 / 9) + 4 * (1 / 2 ^ 53 * (100 / 9))"
    by linarith
  from abs_triangle_le [OF r this] d0 show ?thesis by simp
qed

section \<open>Stem splitter: the two stems add up to the input\<close>

lemma extractVocals_sample:
  assumes "2 \<le> numberOfChannels buffer" "channel < numberOfChannels buffer" "i < length_buf buffer"
  shows "channelSamples (extractVocals buffer) channel i =
           (channelSamples buffer 0 i + channelSamples buffer 1 i) / 2 * 0.8"
  using assms by (simp add: extractVocals_def Let_def)

lemma extractBeats_sample:
  assumes "2 \<le> numberOfChannels buffer" "channel < numberOfChannels buffer" "i < length_buf buffer"
  shows "channelSamples (extractBeats buffer) channel i =
           channelSamples buffer channel i
             - (channelSamples buffer 0 i + channelSamples buffer 1 i) / 2 * 0.8"
  using assms by (simp add: extractBeats_def Let_def)

text \<open>
  Claim C10. For a buffer with at least two channels, the vocal stem and the beat stem
  have the input's shape and, at every channel and sample index of the buffer, their
  samples add up to the input's sample (in exact real arithmetic). For a buffer with
  fewer than two channels both functions return the input buffer itself.
\<close>

theorem stems_reconstruct_input:
  "(2 \<le> numberOfChannels buffer \<longrightarrow>
      numberOfChannels (extractVocals buffer) = numberOfChannels buffer \<and>
      numberOfChannels (extractBeats buffer) = numberOfChannels buffer \<and>
      length_buf (extractVocals buffer) = length_buf buffer \<and>
      length_buf (extractBeats buffer) = length_buf buffer \<and>
      (\<forall>channel i. channel < numberOfChannels buffer \<longrightarrow> i < length_buf buffer \<longrightarrow>
         channelSamples (extractVocals buffer) channel i
           + channelSamples (extractBeats buffer) channel i
         = channelSamples buffer channel i)) \<and>
   (numberOfChannels buffer < 2 \<longrightarrow>
      extractVocals buffer = buffer \<and> extractBeats buffer = buffer)"
proof (intro conjI impI allI)
  fix channel i
  assume two: "2 \<le> numberOfChannels buffer"
    and c: "channel < numberOfChannels buffer" and i: "i < length_buf buffer"
  show "channelSamples (extractVocals buffer) channel i
          + channelSamples (extractBeats buffer) channel i
        = channelSamples buffer channel i"
    by (simp add: extractVocals_sample [OF two c i] extractBeats_sample [OF two c i])
qed (simp_all add: extractVocals_def extractBeats_def Let_def)

theorem stems_reconstruct_input_witness:
  "2 \<le> numberOfChannels stereoExample \<and>
   channelSamples (extractVocals stereoExample) 1 2 = 2 / 5 \<and>
   channelSamples (extractBeats stereoExample) 1 2 = 1 / 10 \<and>
   channelSamples (extractVocals stereoExample) 1 2
     + channelSamples (extractBeats stereoExample) 1 2 = channelSamples stereoExample 1 2 \<and>
   numberOfChannels monoExample < 2 \<and>
   extractVocals monoExample = monoExample \<and> extractBeats monoExample = monoExample"
proof -
  have two: "2 \<le> numberOfChannels stereoExample"
    by (simp add: stereoExample_def)
  have one: "numberOfChannels monoExample < 2"
    by (simp add: monoExample_def)
  have c: "(1::nat) < numberOfChannels stereoExample" and i: "(2::nat) < length_buf stereoExample"
    by (simp_all add: stereoExample_def)
  have v: "channelSamples (extractVocals stereoExample) 1 2 = 2 / 5"
    unfolding extractVocals_sample [OF two c i] by (simp add: stereoExample_def)
  have b: "channelSamples (extractBeats stereoExample) 1 2 = 1 / 10"
    unfolding extractBeats_sample [OF two c i] by (simp add: stereoExample_def)
  from stems_reconstruct_input [of stereoExample] two c i
  have s: "channelSamples (extractVocals stereoExample) 1 2
     + channelSamples (extractBeats stereoExample) 1 2 = channelSamples stereoExample 1 2"
    by blast
  from stems_reconstruct_input [of monoExample] one
  have m: "extractVocals monoExample = monoExample \<and> extractBeats monoExample = monoExample"
    by blast
  from two one v b s m show ?thesis by blast
qed

section \<open>Crossfader: shape of the mix and the basic crossfade\<close>





lemma collect_total:
  assumes "\<And>x. x \<in> set xs \<Longrightarrow> \<exists>v. x = Inr v"
  shows "\<exists>vs. collect xs = Inr vs"
  using assms by (induction xs) (auto split: sum.splits)


lemma readSample_nonneg: "0 \<le> index \<Longrightarrow> \<exists>v. readSample data index = Inr v"
  by (simp add: readSample_def)




lemma createMix_total:
  assumes "1 \<le> numberOfChannels buffer1" "1 \<le> numberOfChannels buffer2"
    and "0 \<le> sampleRate buffer1" "0 \<le> time mixPoint1" "0 \<le> time mixPoint2"
  shows "\<exists>mixed. createMix buffer1 buffer2 mixPoint1 mixPoint2 = Inr mixed"
proof -
  let ?n = "nat \<lfloor>20 * sampleRate buffer1\<rfloor>"
  let ?c = "max (numberOfChannels buffer1) (numberOfChannels buffer2)"
  let ?s1 = "\<lfloor>time mixPoint1 * sampleRate buffer1\<rfloor>"
  let ?s2 = "\<lfloor>time mixPoint2 * sampleRate buffer1\<rfloor>"
  from assms have s1: "0 \<le> ?s1" and s2: "0 \<le> ?s2" by simp_all
  have sample: "\<exists>v. mixSample data1 data2 ?s1 ?s2 ?n i = Inr v" for data1 data2 i
  proof -
    from s1 s2 have "0 \<le> ?s1 + int i" "0 \<le> ?s2 + int i" by simp_all
    then obtain v1 v2 where "readSample data1 (?s1 + int i) = Inr v1"
      "readSample data2 (?s2 + int i) = Inr v2"
      using readSample_nonneg by blast
    then have "mixSample data1 data2 ?s1 ?s2 ?n i =
        Inr ((v1 * (1 - real i / real ?n) + v2 * (real i / real ?n)) * 0.8)"
      by (simp add: mixSample_def Let_def)
    then show ?thesis by blast
  qed
  have row: "\<exists>v. mixChannel buffer1 buffer2 ?s1 ?s2 ?n channel = Inr v" for channel
  proof -
    have "\<exists>data. getChannelData buffer (min (int channel) (int (numberOfChannels buffer) - 1)) = Inr data"
      if "1 \<le> numberOfChannels buffer" for buffer
    proof -
      from that have "0 \<le> min (int channel) (int (numberOfChannels buffer) - 1)"
        and "min (int channel) (int (numberOfChannels buffer) - 1) < int (numberOfChannels buffer)"
        by simp_all
      then show ?thesis by (simp add: getChannelData_def)
    qed
    with assms(1,2) obtain data1 data2 where
      "getChannelData buffer1 (min (int channel) (int (numberOfChannels buffer1) - 1)) = Inr data1"
      "getChannelData buffer2 (min (int channel) (int (numberOfChannels buffer2) - 1)) = Inr data2"
      by blast
    moreover have "\<exists>vs. collect (map (mixSample data1 data2 ?s1 ?s2 ?n) [0..<?n]) = Inr vs"
      by (rule collect_total) (use sample in auto)
    ultimately show ?thesis by (auto simp: mixChannel_def)
  qed
  have "\<exists>vs. collect (map (mixChannel buffer1 buffer2 ?s1 ?s2 ?n) [0..<?c]) = Inr vs"
    by (rule collect_total) (use row in auto)
  then show ?thesis by (auto simp: createMix_def Let_def)
qed

text \<open>
  Claim C5. Whenever the crossfader returns a buffer, its length is
  \<open>floor (20 * sampleRate)\<close> samples per channel, which is exactly \<open>20 * sampleRate\<close>
  for the integer sample rates of the data model, its channel count is the maximum of
  the two inputs' channel counts, and its sample rate is the first track's. It does
  return a buffer for every pair of buffers with at least one channel each and mix
  points at non-negative times.
\<close>

theorem createMix_output_shape:
  "(\<forall>mixed. createMix buffer1 buffer2 mixPoint1 mixPoint2 = Inr mixed \<longrightarrow>
      length_buf mixed = nat \<lfloor>20 * sampleRate buffer1\<rfloor> \<and>
      (\<forall>r::nat. sampleRate buffer1 = real r \<longrightarrow> length_buf mixed = 20 * r) \<and>
      numberOfChannels mixed = max (numberOfChannels buffer1) (numberOfChannels buffer2) \<and>
      sampleRate mixed = sampleRate buffer1) \<and>
   (1 \<le> numberOfChannels buffer1 \<and> 1 \<le> numberOfChannels buffer2 \<and>
    0 < sampleRate buffer1 \<and> 0 \<le> time mixPoint1 \<and> 0 \<le> time mixPoint2 \<longrightarrow>
      (\<exists>mixed. createMix buffer1 buffer2 mixPoint1 mixPoint2 = Inr mixed))"
proof (intro conjI allI impI)
  fix mixed
  assume m: "createMix buffer1 buffer2 mixPoint1 mixPoint2 = Inr mixed"
  then show len: "length_buf mixed = nat \<lfloor>20 * sampleRate buffer1\<rfloor>"
    by (auto simp: createMix_def Let_def split: sum.splits)
  from m show "numberOfChannels mixed = max (numberOfChannels buffer1) (numberOfChannels buffer2)"
    by (auto simp: createMix_def Let_def split: sum.splits)
  from m show "sampleRate mixed = sampleRate buffer1"
    by (auto simp: createMix_def Let_def split: sum.splits)
  fix r :: nat
  assume "sampleRate buffer1 = real r"
  then have "\<lfloor>20 * sampleRate buffer1\<rfloor> = int (20 * r)"
    by (simp add: floor_eq_iff)
  with len show "length_buf mixed = 20 * r" by simp
next
  assume "1 \<le> numberOfChannels buffer1 \<and> 1 \<le> numberOfChannels buffer2 \<and>
    0 < sampleRate buffer1 \<and> 0 \<le> time mixPoint1 \<and> 0 \<le> time mixPoint2"
  then show "\<exists>mixed. createMix buffer1 buffer2 mixPoint1 mixPoint2 = Inr mixed"
    using createMix_total [of buffer1 buffer2 mixPoint1 mixPoint2] by simp
qed

theorem createMix_output_shape_witness:
  "\<exists>mixed. createMix trackA trackB pointA pointB = Inr mixed \<and>
     sampleRate trackA = real 1 \<and> length_buf mixed = 20 \<and> numberOfChannels mixed = 2"
proof -
  have pre: "1 \<le> numberOfChannels trackA \<and> 1 \<le> numberOfChannels trackB \<and>
    0 < sampleRate trackA \<and> 0 \<le> time pointA \<and> 0 \<le> time pointB"
    by (simp add: trackA_def trackB_def pointA_def pointB_def)
  have rate: "sampleRate trackA = real 1" by (simp add: trackA_def)
  from createMix_output_shape [of trackA trackB pointA pointB] pre
  obtain mixed where m: "createMix trackA trackB pointA pointB = Inr mixed" by blast
  from createMix_output_shape [of trackA trackB pointA pointB] m rate
  have "length_buf mixed = 20 * 1"
    and "numberOfChannels mixed = max (numberOfChannels trackA) (numberOfChannels trackB)"
    by blast+
  then have "length_buf mixed = 20" "numberOfChannels mixed = 2"
    by (simp_all add: trackA_def trackB_def)
  with m rate show ?thesis by blast
qed



section \<open>Energy classifier: probabilities and confidence\<close>

lemma upt_5: "[Suc 0..<5] = [1, 2, 3, 4]" "[0..<5] = [0, 1, 2, 3, 4]"
  by (simp_all add: upt_rec)

lemma categoryScores_list:
  "categoryScores rms spectralCentroid zcr tempo peakAmplitude beatStrength =
     [addDouble (addDouble (addDouble 0
        (mulDouble (subDouble 1 (min (divDouble tempo 180) 1)) (roundToDouble (3 / 10))))
        (mulDouble (subDouble 1 (min (divDouble rms (roundToDouble (1 / 2))) 1))
           (roundToDouble (3 / 10))))
        (mulDouble (subDouble 1 (min (divDouble spectralCentroid 4000) 1))
           (roundToDouble (2 / 5))),
      addDouble (addDouble (addDouble 0
        (mulDouble (subDouble 1 (divDouble \<bar>subDouble tempo 90\<bar> 90)) (roundToDouble (2 / 5))))
        (mulDouble
           (subDouble 1
              (divDouble \<bar>subDouble rms (roundToDouble (3 / 10))\<bar> (roundToDouble (3 / 10))))
           (roundToDouble (3 / 10))))
        (mulDouble (subDouble 1 (min (divDouble zcr (roundToDouble (1 / 10))) 1))
           (roundToDouble (3 / 10))),
      addDouble (addDouble (addDouble 0
        (mulDouble (subDouble 1 (divDouble \<bar>subDouble tempo 120\<bar> 120))
           (roundToDouble (2 / 5))))
        (mulDouble
           (subDouble 1
              (divDouble \<bar>subDouble rms (roundToDouble (2 / 5))\<bar> (roundToDouble (2 / 5))))
           (roundToDouble (3 / 10))))
        (mulDouble (min (divDouble beatStrength (roundToDouble (1 / 2))) 1)
           (roundToDouble (3 / 10))),
      addDouble (addDouble (addDouble 0
        (mulDouble (min (divDouble tempo 180) 1) (roundToDouble (2 / 5))))
        (mulDouble (min (divDouble rms (roundToDouble (3 / 5))) 1) (roundToDouble (3 / 10))))
        (mulDouble (min (divDouble spectralCentroid 4000) 1) (roundToDouble (3 / 10))),
      addDouble (addDouble (addDouble 0
        (mulDouble (min (divDouble tempo 180) 1) (roundToDouble (1 / 2))))
        (mulDouble (min (divDouble rms (roundToDouble (7 / 10))) 1) (roundToDouble (3 / 10))))
        (mulDouble (min (divDouble peakAmplitude (roundToDouble (4 / 5))) 1)
           (roundToDouble (1 / 5)))]"
  unfolding categoryScores_def Let_def by (simp add: addScore_def)

lemma silent_slots:
  "silentFeatures ! 0 = 0" "silentFeatures ! 1 = 0" "silentFeatures ! 2 = 0"
  "silentFeatures ! 5 = 120" "silentFeatures ! 6 = 0" "silentFeatures ! 9 = 0"
  "length silentFeatures = 25"
  by (simp_all add: silentFeatures_def)

lemma scores_silent:
  "featureScores silentFeatures =
     [3602879701896397 / 4503599627370496, 2552039788843281 / 4503599627370496,
      3602879701896397 / 9007199254740992, 4803839602528529 / 18014398509481984,
      6004799503160661 / 18014398509481984]"
  unfolding featureScores_def silent_slots categoryScores_list
  by (simp add: double_eval)


subsection \<open>The scores in doubles and in exact arithmetic\<close>

lemma min_ratio_close:
  assumes "0 \<le> x" and c: "1 / 10 \<le> c" "\<bar>c' - c\<bar> \<le> 1 / 2 ^ 53"
  shows "\<bar>min (divDouble x c') 1 - min (x / c) 1\<bar> \<le> 1 / 2 ^ 44"
proof (cases "x \<le> 4 * c")
  case True
  with assms(1) have "\<bar>x - x\<bar> \<le> 0" "\<bar>x\<bar> \<le> 4 * c" by simp_all
  from divDouble_close [OF c this] have "\<bar>divDouble x c' - x / c\<bar> \<le> 1 / 2 ^ 44" by simp
  then show ?thesis by linarith
next
  case False
  have tiny: "(1::real) / 2 ^ 53 \<le> 1 / 100" by simp
  from c tiny have cpos: "0 < c" "0 < c'" and le: "c' \<le> 4 * c" by linarith+
  from False cpos have "1 \<le> x / c" by (simp add: pos_le_divide_eq)
  moreover from False le cpos have "1 \<le> x / c'" by (simp add: pos_le_divide_eq)
  then have "1 \<le> divDouble x c'"
    unfolding divDouble_def by (rule roundToDouble_ge_1)
  ultimately show ?thesis by simp
qed

lemma distance_ratio_close:
  assumes c: "1 / 4 \<le> c" "c \<le> 128" "\<bar>c' - c\<bar> \<le> 1 / 2 ^ 53" and x: "\<bar>x - c\<bar> \<le> 3 * c"
  shows "\<bar>divDouble \<bar>subDouble x c'\<bar> c' - \<bar>x - c\<bar> / c\<bar> \<le> 1 / 2 ^ 38"
proof -
  have tiny: "(1::real) / 2 ^ 53 \<le> 1 / 100" by simp
  from c x tiny have "\<bar>x - c'\<bar> \<le> 512" by linarith
  from roundToDouble_error_512 [OF this]
  have "\<bar>subDouble x c' - (x - c')\<bar> \<le> 1 / 2 ^ 44" by (simp only: subDouble_def)
  moreover have "(1::real) / 2 ^ 44 + 1 / 2 ^ 53 \<le> 1 / 2 ^ 43" by simp
  ultimately have "\<bar>subDouble x c' - (x - c)\<bar> \<le> 1 / 2 ^ 43"
    using c(3) by linarith
  then have d: "\<bar>\<bar>subDouble x c'\<bar> - \<bar>x - c\<bar>\<bar> \<le> 1 / 2 ^ 43" by linarith
  from c(1) have c10: "1 / 10 \<le> c" by linarith
  from x have x4: "\<bar>\<bar>x - c\<bar>\<bar> \<le> 4 * c" using c(1) by linarith
  from divDouble_close [OF c10 c(3) d x4]
  have "\<bar>divDouble \<bar>subDouble x c'\<bar> c' - \<bar>x - c\<bar> / c\<bar> \<le> 16 * (1 / 2 ^ 43) + 1 / 2 ^ 44"
    by simp
  then show ?thesis by simp
qed

text \<open>The three shapes of the fifteen terms, each within \<open>2 ^ -35\<close> of its exact value.\<close>

lemma term_min_complement:
  assumes "0 \<le> x" and c: "1 / 10 \<le> c" "\<bar>c' - c\<bar> \<le> 1 / 2 ^ 53"
    and w: "\<bar>w' - w\<bar> \<le> 1 / 2 ^ 53" "0 \<le> w" "w \<le> 1"
  shows "\<bar>mulDouble (subDouble 1 (min (divDouble x c') 1)) w' - (1 - min (x / c) 1) * w\<bar>
           \<le> 1 / 2 ^ 35"
proof -
  define m' where "m' = min (divDouble x c') 1"
  define m where "m = min (x / c) 1"
  from min_ratio_close [OF assms(1) c] have mm: "\<bar>m' - m\<bar> \<le> 1 / 2 ^ 44"
    by (simp only: m'_def m_def)
  from assms(1) c(1) have m: "0 \<le> m" "m \<le> 1" by (simp_all add: m_def)
  have m': "m' \<le> 1" by (simp add: m'_def)
  have tiny: "(1::real) / 2 ^ 44 \<le> 1" by simp
  from mm m m' tiny have "\<bar>1 - m'\<bar> \<le> 16" by linarith
  from subDouble_close [where a' = 1 and a = 1 and da = 0, OF _ mm this]
  have "\<bar>subDouble 1 m' - (1 - m)\<bar> \<le> 1 / 2 ^ 44 + 1 / 2 ^ 49" by simp
  moreover have "(1::real) / 2 ^ 44 + 1 / 2 ^ 49 \<le> 1 / 2 ^ 43" by simp
  ultimately have a: "\<bar>subDouble 1 m' - (1 - m)\<bar> \<le> 1 / 2 ^ 43" by linarith
  from m have a4: "\<bar>1 - m\<bar> \<le> 4" by linarith
  from mulDouble_close [OF a a4 _ w]
  have "\<bar>mulDouble (subDouble 1 m') w' - (1 - m) * w\<bar> \<le> 2 * (1 / 2 ^ 43) + 1 / 2 ^ 48"
    by simp
  then show ?thesis unfolding m'_def m_def by simp
qed

lemma term_min:
  assumes "0 \<le> x" and c: "1 / 10 \<le> c" "\<bar>c' - c\<bar> \<le> 1 / 2 ^ 53"
    and w: "\<bar>w' - w\<bar> \<le> 1 / 2 ^ 53" "0 \<le> w" "w \<le> 1"
  shows "\<bar>mulDouble (min (divDouble x c') 1) w' - min (x / c) 1 * w\<bar> \<le> 1 / 2 ^ 35"
proof -
  define m' where "m' = min (divDouble x c') 1"
  define m where "m = min (x / c) 1"
  from min_ratio_close [OF assms(1) c] have mm: "\<bar>m' - m\<bar> \<le> 1 / 2 ^ 44"
    by (simp only: m'_def m_def)
  from assms(1) c(1) have m: "0 \<le> m" "m \<le> 1" by (simp_all add: m_def)
  then have m4: "\<bar>m\<bar> \<le> 4" by linarith
  from mulDouble_close [OF mm m4 _ w]
  have "\<bar>mulDouble m' w' - m * w\<bar> \<le> 2 * (1 / 2 ^ 44) + 1 / 2 ^ 48"
    by simp
  then show ?thesis unfolding m'_def m_def by simp
qed

lemma term_distance:
  assumes c: "1 / 4 \<le> c" "c \<le> 128" "\<bar>c' - c\<bar> \<le> 1 / 2 ^ 53" and x: "\<bar>x - c\<bar> \<le> 3 * c"
    and w: "\<bar>w' - w\<bar> \<le> 1 / 2 ^ 53" "0 \<le> w" "w \<le> 1"
  shows "\<bar>mulDouble (subDouble 1 (divDouble \<bar>subDouble x c'\<bar> c')) w' - (1 - \<bar>x - c\<bar> / c) * w\<bar>
           \<le> 1 / 2 ^ 35"
proof -
  define q' where "q' = divDouble \<bar>subDouble x c'\<bar> c'"
  define q where "q = \<bar>x - c\<bar> / c"
  from distance_ratio_close [OF c x] have qq: "\<bar>q' - q\<bar> \<le> 1 / 2 ^ 38"
    by (simp only: q'_def q_def)
  from c(1) have cpos: "0 < c" by linarith
  with x have q: "0 \<le> q" "q \<le> 3" by (simp_all add: q_def pos_divide_le_eq)
  have tiny: "(1::real) / 2 ^ 38 \<le> 1" by simp
  from qq q tiny have "\<bar>1 - q'\<bar> \<le> 16" by linarith
  from subDouble_close [where a' = 1 and a = 1 and da = 0, OF _ qq this]
  have "\<bar>subDouble 1 q' - (1 - q)\<bar> \<le> 1 / 2 ^ 38 + 1 / 2 ^ 49" by simp
  moreover have "(1::real) / 2 ^ 38 + 1 / 2 ^ 49 \<le> 1 / 2 ^ 37" by simp
  ultimately have a: "\<bar>subDouble 1 q' - (1 - q)\<bar> \<le> 1 / 2 ^ 37" by linarith
  from q have a4: "\<bar>1 - q\<bar> \<le> 4" by linarith
  from mulDouble_close [OF a a4 _ w]
  have "\<bar>mulDouble (subDouble 1 q') w' - (1 - q) * w\<bar> \<le> 2 * (1 / 2 ^ 37) + 1 / 2 ^ 48"
    by simp
  then show ?thesis unfolding q'_def q_def by simp
qed

text \<open>A score is the sum of three terms, each of magnitude at most 1.\<close>

lemma score_close:
  assumes "\<bar>t1' - t1\<bar> \<le> 1 / 2 ^ 35" "\<bar>t2' - t2\<bar> \<le> 1 / 2 ^ 35" "\<bar>t3' - t3\<bar> \<le> 1 / 2 ^ 35"
    and "\<bar>t1\<bar> \<le> 1" "\<bar>t2\<bar> \<le> 1" "\<bar>t3\<bar> \<le> 1"
  shows "\<bar>addDouble (addDouble (addDouble 0 t1') t2') t3' - (t1 + t2 + t3)\<bar> \<le> 1 / 2 ^ 33"
proof -
  have tiny: "(1::real) / 2 ^ 35 \<le> 1" "(1::real) / 2 ^ 49 \<le> 1" by simp_all
  from assms tiny have "\<bar>0 + t1'\<bar> \<le> 16" by linarith
  from addDouble_close [OF _ assms(1) this, of 0 0]
  have s1: "\<bar>addDouble 0 t1' - t1\<bar> \<le> 1 / 2 ^ 35 + 1 / 2 ^ 49" by simp
  with assms tiny have "\<bar>addDouble 0 t1' + t2'\<bar> \<le> 16" by linarith
  from addDouble_close [OF s1 assms(2) this]
  have s2: "\<bar>addDouble (addDouble 0 t1') t2' - (t1 + t2)\<bar>
      \<le> 1 / 2 ^ 35 + 1 / 2 ^ 49 + 1 / 2 ^ 35 + 1 / 2 ^ 49" .
  with assms tiny have "\<bar>addDouble (addDouble 0 t1') t2' + t3'\<bar> \<le> 16" by linarith
  from addDouble_close [OF s2 assms(3) this]
  have "\<bar>addDouble (addDouble (addDouble 0 t1') t2') t3' - (t1 + t2 + t3)\<bar>
      \<le> 1 / 2 ^ 35 + 1 / 2 ^ 49 + 1 / 2 ^ 35 + 1 / 2 ^ 49 + 1 / 2 ^ 35 + 1 / 2 ^ 49" .
  then show ?thesis by simp
qed


lemma literals_close:
  "\<bar>roundToDouble (1 / 10) - 1 / 10\<bar> \<le> 1 / 2 ^ 53"
  "\<bar>roundToDouble (1 / 5) - 1 / 5\<bar> \<le> 1 / 2 ^ 53"
  "\<bar>roundToDouble (3 / 10) - 3 / 10\<bar> \<le> 1 / 2 ^ 53"
  "\<bar>roundToDouble (2 / 5) - 2 / 5\<bar> \<le> 1 / 2 ^ 53"
  "\<bar>roundToDouble (1 / 2) - 1 / 2\<bar> \<le> 1 / 2 ^ 53"
  "\<bar>roundToDouble (3 / 5) - 3 / 5\<bar> \<le> 1 / 2 ^ 53"
  "\<bar>roundToDouble (7 / 10) - 7 / 10\<bar> \<le> 1 / 2 ^ 53"
  "\<bar>roundToDouble (4 / 5) - 4 / 5\<bar> \<le> 1 / 2 ^ 53"
  by (rule roundToDouble_error_1, simp)+

lemma min_term_bounds:
  fixes x c w :: real
  assumes "0 \<le> x" "0 < c" "0 \<le> w" "w \<le> 1"
  shows "0 \<le> (1 - min (x / c) 1) * w" "(1 - min (x / c) 1) * w \<le> 1"
    "0 \<le> min (x / c) 1 * w" "min (x / c) 1 * w \<le> 1"
proof -
  define m where "m = min (x / c) 1"
  from assms(1,2) have m: "0 \<le> m" "m \<le> 1" by (simp_all add: m_def)
  then have n: "0 \<le> 1 - m" "1 - m \<le> 1" by simp_all
  from m assms(3,4) show "0 \<le> min (x / c) 1 * w" "min (x / c) 1 * w \<le> 1"
    unfolding m_def [symmetric] by (simp_all add: mult_le_one)
  from n assms(3,4) show "0 \<le> (1 - min (x / c) 1) * w" "(1 - min (x / c) 1) * w \<le> 1"
    unfolding m_def [symmetric] by (simp_all add: mult_le_one)
qed

lemma tempo_term_bounds:
  fixes tempo :: real
  assumes "60 \<le> tempo" "tempo \<le> 180"
  shows "0 \<le> (1 - \<bar>tempo - 90\<bar> / 90) * (2 / 5)" "(1 - \<bar>tempo - 90\<bar> / 90) * (2 / 5) \<le> 1"
    "1 / 5 \<le> (1 - \<bar>tempo - 120\<bar> / 120) * (2 / 5)" "(1 - \<bar>tempo - 120\<bar> / 120) * (2 / 5) \<le> 1"
    "2 / 15 \<le> min (tempo / 180) 1 * (2 / 5)" "1 / 6 \<le> min (tempo / 180) 1 * (1 / 2)"
  using assms by (auto simp: min_def abs_if field_simps)

lemma rms_term_bounds:
  fixes rms :: real
  assumes "0 \<le> rms" "rms \<le> 1"
  shows "- 1 \<le> (1 - \<bar>rms - 3 / 10\<bar> / (3 / 10)) * (3 / 10)"
    "(1 - \<bar>rms - 3 / 10\<bar> / (3 / 10)) * (3 / 10) \<le> 1"
    "- 1 \<le> (1 - \<bar>rms - 2 / 5\<bar> / (2 / 5)) * (3 / 10)"
    "(1 - \<bar>rms - 2 / 5\<bar> / (2 / 5)) * (3 / 10) \<le> 1"
    "0 \<le> (1 - min (rms / (1 / 2)) 1) * (3 / 10) + (1 - \<bar>rms - 3 / 10\<bar> / (3 / 10)) * (3 / 10)
       + (1 - \<bar>rms - 2 / 5\<bar> / (2 / 5)) * (3 / 10) + min (rms / (3 / 5)) 1 * (3 / 10)
       + min (rms / (7 / 10)) 1 * (3 / 10)"
  using assms by (auto simp: min_def abs_if field_simps)

text \<open>
  On the vectors \<open>extractFeatures\<close> produces from samples in \<open>[-1, 1]\<close> (a tempo in
  \<open>[60, 180]\<close>, an RMS in \<open>[0, 1]\<close>, the other features not negative) no score exceeds 3.1
  in magnitude and the five scores add up to more than 1/4.
\<close>

lemma categoryScores_bounds:
  assumes t: "60 \<le> tempo" "tempo \<le> 180" and r: "0 \<le> rms" "rms \<le> 1"
    and o: "0 \<le> sc" "0 \<le> zcr" "0 \<le> peak" "0 \<le> bs"
  shows "\<exists>s0 s1 s2 s3 s4. categoryScores rms sc zcr tempo peak bs = [s0, s1, s2, s3, s4] \<and>
           \<bar>s0\<bar> \<le> 31 / 10 \<and> \<bar>s1\<bar> \<le> 31 / 10 \<and> \<bar>s2\<bar> \<le> 31 / 10 \<and>
           \<bar>s3\<bar> \<le> 31 / 10 \<and> \<bar>s4\<bar> \<le> 31 / 10 \<and>
           1 / 4 \<le> s0 + s1 + s2 + s3 + s4"
proof -
  note L = literals_close
  have I: "\<bar>(180::real) - 180\<bar> \<le> 1 / 2 ^ 53" "\<bar>(4000::real) - 4000\<bar> \<le> 1 / 2 ^ 53"
    "\<bar>(90::real) - 90\<bar> \<le> 1 / 2 ^ 53" "\<bar>(120::real) - 120\<bar> \<le> 1 / 2 ^ 53"
    by simp_all
  from t have t0: "0 \<le> tempo" by linarith
  from t r have d: "\<bar>tempo - 90\<bar> \<le> 3 * 90" "\<bar>tempo - 120\<bar> \<le> 3 * 120"
    "\<bar>rms - 3 / 10\<bar> \<le> 3 * (3 / 10)" "\<bar>rms - 2 / 5\<bar> \<le> 3 * (2 / 5)"
    by linarith+
  define t01 where "t01 = (1 - min (tempo / 180) 1) * (3 / 10)"
  define t02 where "t02 = (1 - min (rms / (1 / 2)) 1) * (3 / 10)"
  define t03 where "t03 = (1 - min (sc / 4000) 1) * (2 / 5)"
  define t11 where "t11 = (1 - \<bar>tempo - 90\<bar> / 90) * (2 / 5)"
  define t12 where "t12 = (1 - \<bar>rms - 3 / 10\<bar> / (3 / 10)) * (3 / 10)"
  define t13 where "t13 = (1 - min (zcr / (1 / 10)) 1) * (3 / 10)"
  define t21 where "t21 = (1 - \<bar>tempo - 120\<bar> / 120) * (2 / 5)"
  define t22 where "t22 = (1 - \<bar>rms - 2 / 5\<bar> / (2 / 5)) * (3 / 10)"
  define t23 where "t23 = min (bs / (1 / 2)) 1 * (3 / 10)"
  define t31 where "t31 = min (tempo / 180) 1 * (2 / 5)"
  define t32 where "t32 = min (rms / (3 / 5)) 1 * (3 / 10)"
  define t33 where "t33 = min (sc / 4000) 1 * (3 / 10)"
  define t41 where "t41 = min (tempo / 180) 1 * (1 / 2)"
  define t42 where "t42 = min (rms / (7 / 10)) 1 * (3 / 10)"
  define t43 where "t43 = min (peak / (4 / 5)) 1 * (1 / 5)"
  note defs = t01_def t02_def t03_def t11_def t12_def t13_def t21_def t22_def t23_def
    t31_def t32_def t33_def t41_def t42_def t43_def
  have c01: "\<bar>mulDouble (subDouble 1 (min (divDouble tempo 180) 1)) (roundToDouble (3 / 10)) - t01\<bar>
      \<le> 1 / 2 ^ 35"
    unfolding t01_def by (rule term_min_complement [OF t0 _ I(1) L(3)]) simp_all
  have c02: "\<bar>mulDouble (subDouble 1 (min (divDouble rms (roundToDouble (1 / 2))) 1))
      (roundToDouble (3 / 10)) - t02\<bar> \<le> 1 / 2 ^ 35"
    unfolding t02_def by (rule term_min_complement [OF r(1) _ L(5) L(3)]) simp_all
  have c03: "\<bar>mulDouble (subDouble 1 (min (divDouble sc 4000) 1)) (roundToDouble (2 / 5)) - t03\<bar>
      \<le> 1 / 2 ^ 35"
    unfolding t03_def by (rule term_min_complement [OF o(1) _ I(2) L(4)]) simp_all
  have c11: "\<bar>mulDouble (subDouble 1 (divDouble \<bar>subDouble tempo 90\<bar> 90)) (roundToDouble (2 / 5))
      - t11\<bar> \<le> 1 / 2 ^ 35"
    unfolding t11_def by (rule term_distance [OF _ _ I(3) d(1) L(4)]) simp_all
  have c12: "\<bar>mulDouble (subDouble 1
      (divDouble \<bar>subDouble rms (roundToDouble (3 / 10))\<bar> (roundToDouble (3 / 10))))
      (roundToDouble (3 / 10)) - t12\<bar> \<le> 1 / 2 ^ 35"
    unfolding t12_def by (rule term_distance [OF _ _ L(3) d(3) L(3)]) simp_all
  have c13: "\<bar>mulDouble (subDouble 1 (min (divDouble zcr (roundToDouble (1 / 10))) 1))
      (roundToDouble (3 / 10)) - t13\<bar> \<le> 1 / 2 ^ 35"
    unfolding t13_def by (rule term_min_complement [OF o(2) _ L(1) L(3)]) simp_all
  have c21: "\<bar>mulDouble (subDouble 1 (divDouble \<bar>subDouble tempo 120\<bar> 120)) (roundToDouble (2 / 5))
      - t21\<bar> \<le> 1 / 2 ^ 35"
    unfolding t21_def by (rule term_distance [OF _ _ I(4) d(2) L(4)]) simp_all
  have c22: "\<bar>mulDouble (subDouble 1
      (divDouble \<bar>subDouble rms (roundToDouble (2 / 5))\<bar> (roundToDouble (2 / 5))))
      (roundToDouble (3 / 10)) - t22\<bar> \<le> 1 / 2 ^ 35"
    unfolding t22_def by (rule term_distance [OF _ _ L(4) d(4) L(3)]) simp_all
  have c23: "\<bar>mulDouble (min (divDouble bs (roundToDouble (1 / 2))) 1) (roundToDouble (3 / 10))
      - t23\<bar> \<le> 1 / 2 ^ 35"
    unfolding t23_def by (rule term_min [OF o(4) _ L(5) L(3)]) simp_all
  have c31: "\<bar>mulDouble (min (divDouble tempo 180) 1) (roundToDouble (2 / 5)) - t31\<bar> \<le> 1 / 2 ^ 35"
    unfolding t31_def by (rule term_min [OF t0 _ I(1) L(4)]) simp_all
  have c32: "\<bar>mulDouble (min (divDouble rms (roundToDouble (3 / 5))) 1) (roundToDouble (3 / 10))
      - t32\<bar> \<le> 1 / 2 ^ 35"
    unfolding t32_def by (rule term_min [OF r(1) _ L(6) L(3)]) simp_all
  have c33: "\<bar>mulDouble (min (divDouble sc 4000) 1) (roundToDouble (3 / 10)) - t33\<bar> \<le> 1 / 2 ^ 35"
    unfolding t33_def by (rule term_min [OF o(1) _ I(2) L(3)]) simp_all
  have c41: "\<bar>mulDouble (min (divDouble tempo 180) 1) (roundToDouble (1 / 2)) - t41\<bar> \<le> 1 / 2 ^ 35"
    unfolding t41_def by (rule term_min [OF t0 _ I(1) L(5)]) simp_all
  have c42: "\<bar>mulDouble (min (divDouble rms (roundToDouble (7 / 10))) 1) (roundToDouble (3 / 10))
      - t42\<bar> \<le> 1 / 2 ^ 35"
    unfolding t42_def by (rule term_min [OF r(1) _ L(7) L(3)]) simp_all
  have c43: "\<bar>mulDouble (min (divDouble peak (roundToDouble (4 / 5))) 1) (roundToDouble (1 / 5))
      - t43\<bar> \<le> 1 / 2 ^ 35"
    unfolding t43_def by (rule term_min [OF o(3) _ L(8) L(2)]) simp_all
  have n01: "(0::real) < 180" "(0::real) \<le> 3 / 10" "(3 / 10::real) \<le> 1" by simp_all
  note m01 = min_term_bounds [OF t0 n01, folded t01_def]
  have n02: "(0::real) < 1 / 2" "(0::real) \<le> 3 / 10" "(3 / 10::real) \<le> 1" by simp_all
  note m02 = min_term_bounds [OF r(1) n02, folded t02_def]
  have n03: "(0::real) < 4000" "(0::real) \<le> 2 / 5" "(2 / 5::real) \<le> 1" by simp_all
  note m03 = min_term_bounds [OF o(1) n03, folded t03_def]
  have n13: "(0::real) < 1 / 10" "(0::real) \<le> 3 / 10" "(3 / 10::real) \<le> 1" by simp_all
  note m13 = min_term_bounds [OF o(2) n13, folded t13_def]
  have n23: "(0::real) < 1 / 2" "(0::real) \<le> 3 / 10" "(3 / 10::real) \<le> 1" by simp_all
  note m23 = min_term_bounds [OF o(4) n23, folded t23_def]
  have n31: "(0::real) < 180" "(0::real) \<le> 2 / 5" "(2 / 5::real) \<le> 1" by simp_all
  note m31 = min_term_bounds [OF t0 n31, folded t31_def]
  have n32: "(0::real) < 3 / 5" "(0::real) \<le> 3 / 10" "(3 / 10::real) \<le> 1" by simp_all
  note m32 = min_term_bounds [OF r(1) n32, folded t32_def]
  have n33: "(0::real) < 4000" "(0::real) \<le> 3 / 10" "(3 / 10::real) \<le> 1" by simp_all
  note m33 = min_term_bounds [OF o(1) n33, folded t33_def]
  have n41: "(0::real) < 180" "(0::real) \<le> 1 / 2" "(1 / 2::real) \<le> 1" by simp_all
  note m41 = min_term_bounds [OF t0 n41, folded t41_def]
  have n42: "(0::real) < 7 / 10" "(0::real) \<le> 3 / 10" "(3 / 10::real) \<le> 1" by simp_all
  note m42 = min_term_bounds [OF r(1) n42, folded t42_def]
  have n43: "(0::real) < 4 / 5" "(0::real) \<le> 1 / 5" "(1 / 5::real) \<le> 1" by simp_all
  note m43 = min_term_bounds [OF o(3) n43, folded t43_def]
  note tb = tempo_term_bounds [OF t, folded t11_def t21_def t31_def t41_def]
  note rb = rms_term_bounds [OF r, folded t02_def t12_def t22_def t32_def t42_def]
  have b0: "0 \<le> t01" "\<bar>t01\<bar> \<le> 1" "\<bar>t02\<bar> \<le> 1" "0 \<le> t03" "\<bar>t03\<bar> \<le> 1"
    using m01(1,2) m02(1,2) m03(1,2) by linarith+
  have b1: "0 \<le> t11" "\<bar>t11\<bar> \<le> 1" "\<bar>t12\<bar> \<le> 1" "0 \<le> t13" "\<bar>t13\<bar> \<le> 1"
    using tb(1,2) rb(1,2) m13(1,2) by linarith+
  have b2: "1 / 5 \<le> t21" "\<bar>t21\<bar> \<le> 1" "\<bar>t22\<bar> \<le> 1" "0 \<le> t23" "\<bar>t23\<bar> \<le> 1"
    using tb(3,4) rb(3,4) m23(3,4) by linarith+
  have b3: "2 / 15 \<le> t31" "\<bar>t31\<bar> \<le> 1" "\<bar>t32\<bar> \<le> 1" "0 \<le> t33" "\<bar>t33\<bar> \<le> 1"
    using tb(5) m31(3,4) m32(3,4) m33(3,4) by linarith+
  have b4: "1 / 6 \<le> t41" "\<bar>t41\<bar> \<le> 1" "\<bar>t42\<bar> \<le> 1" "0 \<le> t43" "\<bar>t43\<bar> \<le> 1"
    using tb(6) m41(3,4) m42(3,4) m43(3,4) by linarith+
  have g: "0 \<le> t02 + t12 + t22 + t32 + t42"
    using rb(5) by linarith
  define s0 where "s0 = addDouble (addDouble (addDouble 0
        (mulDouble (subDouble 1 (min (divDouble tempo 180) 1)) (roundToDouble (3 / 10))))
        (mulDouble (subDouble 1 (min (divDouble rms (roundToDouble (1 / 2))) 1))
           (roundToDouble (3 / 10))))
        (mulDouble (subDouble 1 (min (divDouble sc 4000) 1)) (roundToDouble (2 / 5)))"
  define s1 where "s1 = addDouble (addDouble (addDouble 0
        (mulDouble (subDouble 1 (divDouble \<bar>subDouble tempo 90\<bar> 90)) (roundToDouble (2 / 5))))
        (mulDouble
           (subDouble 1
              (divDouble \<bar>subDouble rms (roundToDouble (3 / 10))\<bar> (roundToDouble (3 / 10))))
           (roundToDouble (3 / 10))))
        (mulDouble (subDouble 1 (min (divDouble zcr (roundToDouble (1 / 10))) 1))
           (roundToDouble (3 / 10)))"
  define s2 where "s2 = addDouble (addDouble (addDouble 0
        (mulDouble (subDouble 1 (divDouble \<bar>subDouble tempo 120\<bar> 120))
           (roundToDouble (2 / 5))))
        (mulDouble
           (subDouble 1
              (divDouble \<bar>subDouble rms (roundToDouble (2 / 5))\<bar> (roundToDouble (2 / 5))))
           (roundToDouble (3 / 10))))
        (mulDouble (min (divDouble bs (roundToDouble (1 / 2))) 1) (roundToDouble (3 / 10)))"
  define s3 where "s3 = addDouble (addDouble (addDouble 0
        (mulDouble (min (divDouble tempo 180) 1) (roundToDouble (2 / 5))))
        (mulDouble (min (divDouble rms (roundToDouble (3 / 5))) 1) (roundToDouble (3 / 10))))
        (mulDouble (min (divDouble sc 4000) 1) (roundToDouble (3 / 10)))"
  define s4 where "s4 = addDouble (addDouble (addDouble 0
        (mulDouble (min (divDouble tempo 180) 1) (roundToDouble (1 / 2))))
        (mulDouble (min (divDouble rms (roundToDouble (7 / 10))) 1) (roundToDouble (3 / 10))))
        (mulDouble (min (divDouble peak (roundToDouble (4 / 5))) 1) (roundToDouble (1 / 5)))"
  have list: "categoryScores rms sc zcr tempo peak bs = [s0, s1, s2, s3, s4]"
    unfolding s0_def s1_def s2_def s3_def s4_def by (rule categoryScores_list)
  have e0: "\<bar>s0 - (t01 + t02 + t03)\<bar> \<le> 1 / 2 ^ 33"
    unfolding s0_def by (rule score_close [OF c01 c02 c03 b0(2,3,5)])
  have e1: "\<bar>s1 - (t11 + t12 + t13)\<bar> \<le> 1 / 2 ^ 33"
    unfolding s1_def by (rule score_close [OF c11 c12 c13 b1(2,3,5)])
  have e2: "\<bar>s2 - (t21 + t22 + t23)\<bar> \<le> 1 / 2 ^ 33"
    unfolding s2_def by (rule score_close [OF c21 c22 c23 b2(2,3,5)])
  have e3: "\<bar>s3 - (t31 + t32 + t33)\<bar> \<le> 1 / 2 ^ 33"
    unfolding s3_def by (rule score_close [OF c31 c32 c33 b3(2,3,5)])
  have e4: "\<bar>s4 - (t41 + t42 + t43)\<bar> \<le> 1 / 2 ^ 33"
    unfolding s4_def by (rule score_close [OF c41 c42 c43 b4(2,3,5)])
  have tiny: "(1::real) / 2 ^ 33 \<le> 1 / 100" by simp
  from e0 b0(2,3,5) tiny have a0: "\<bar>s0\<bar> \<le> 31 / 10" and l0: "t01 + t02 + t03 - 1 / 100 \<le> s0"
    by linarith+
  from e1 b1(2,3,5) tiny have a1: "\<bar>s1\<bar> \<le> 31 / 10" and l1: "t11 + t12 + t13 - 1 / 100 \<le> s1"
    by linarith+
  from e2 b2(2,3,5) tiny have a2: "\<bar>s2\<bar> \<le> 31 / 10" and l2: "t21 + t22 + t23 - 1 / 100 \<le> s2"
    by linarith+
  from e3 b3(2,3,5) tiny have a3: "\<bar>s3\<bar> \<le> 31 / 10" and l3: "t31 + t32 + t33 - 1 / 100 \<le> s3"
    by linarith+
  from e4 b4(2,3,5) tiny have a4: "\<bar>s4\<bar> \<le> 31 / 10" and l4: "t41 + t42 + t43 - 1 / 100 \<le> s4"
    by linarith+
  from l0 l1 l2 l3 l4 b0(1,4) b1(1,4) b2(1,4) b3(1,4) b4(1,4) g
  have "1 / 4 \<le> s0 + s1 + s2 + s3 + s4"
    by linarith
  with list a0 a1 a2 a3 a4 show ?thesis by blast
qed


text \<open>The total is the sum of the scores up to five roundings.\<close>

lemma total_close:
  assumes "\<bar>s0\<bar> \<le> 31 / 10" "\<bar>s1\<bar> \<le> 31 / 10" "\<bar>s2\<bar> \<le> 31 / 10" "\<bar>s3\<bar> \<le> 31 / 10"
    "\<bar>s4\<bar> \<le> 31 / 10"
  shows "\<bar>foldl addDouble 0 [s0, s1, s2, s3, s4] - (s0 + s1 + s2 + s3 + s4)\<bar> \<le> 5 / 2 ^ 49"
proof -
  have tiny: "(1::real) / 2 ^ 49 \<le> 1 / 100" by simp
  have z: "\<bar>(0::real) - 0\<bar> \<le> 0" "\<bar>s0 - s0\<bar> \<le> 0" "\<bar>s1 - s1\<bar> \<le> 0" "\<bar>s2 - s2\<bar> \<le> 0"
    "\<bar>s3 - s3\<bar> \<le> 0" "\<bar>s4 - s4\<bar> \<le> 0"
    by simp_all
  from assms have "\<bar>0 + s0\<bar> \<le> 16" by linarith
  from addDouble_close [OF z(1) z(2) this]
  have p0: "\<bar>addDouble 0 s0 - (0 + s0)\<bar> \<le> 0 + 0 + 1 / 2 ^ 49" .
  with assms tiny have "\<bar>addDouble 0 s0 + s1\<bar> \<le> 16" by linarith
  from addDouble_close [OF p0 z(3) this]
  have p1: "\<bar>addDouble (addDouble 0 s0) s1 - (0 + s0 + s1)\<bar> \<le> 0 + 0 + 1 / 2 ^ 49 + 0 + 1 / 2 ^ 49" .
  with assms tiny have "\<bar>addDouble (addDouble 0 s0) s1 + s2\<bar> \<le> 16" by linarith
  from addDouble_close [OF p1 z(4) this]
  have p2: "\<bar>addDouble (addDouble (addDouble 0 s0) s1) s2 - (0 + s0 + s1 + s2)\<bar>
      \<le> 0 + 0 + 1 / 2 ^ 49 + 0 + 1 / 2 ^ 49 + 0 + 1 / 2 ^ 49" .
  with assms tiny have "\<bar>addDouble (addDouble (addDouble 0 s0) s1) s2 + s3\<bar> \<le> 16" by linarith
  from addDouble_close [OF p2 z(5) this]
  have p3: "\<bar>addDouble (addDouble (addDouble (addDouble 0 s0) s1) s2) s3 - (0 + s0 + s1 + s2 + s3)\<bar>
      \<le> 0 + 0 + 1 / 2 ^ 49 + 0 + 1 / 2 ^ 49 + 0 + 1 / 2 ^ 49 + 0 + 1 / 2 ^ 49" .
  with assms tiny
  have "\<bar>addDouble (addDouble (addDouble (addDouble 0 s0) s1) s2) s3 + s4\<bar> \<le> 16" by linarith
  from addDouble_close [OF p3 z(6) this]
  have "\<bar>addDouble (addDouble (addDouble (addDouble (addDouble 0 s0) s1) s2) s3) s4
      - (0 + s0 + s1 + s2 + s3 + s4)\<bar>
      \<le> 0 + 0 + 1 / 2 ^ 49 + 0 + 1 / 2 ^ 49 + 0 + 1 / 2 ^ 49 + 0 + 1 / 2 ^ 49 + 0 + 1 / 2 ^ 49" .
  then show ?thesis by simp
qed

text \<open>
  Scores of magnitude at most 3.1 divided by a total of at least 1/5 that is their sum up
  to the roundings: the quotients add up to 1 within \<open>10 ^ -6\<close>.
\<close>

lemma probabilities_sum:
  assumes s: "\<bar>s0\<bar> \<le> 31 / 10" "\<bar>s1\<bar> \<le> 31 / 10" "\<bar>s2\<bar> \<le> 31 / 10" "\<bar>s3\<bar> \<le> 31 / 10"
    "\<bar>s4\<bar> \<le> 31 / 10"
    and T: "1 / 5 \<le> T" "\<bar>T - (s0 + s1 + s2 + s3 + s4)\<bar> \<le> 5 / 2 ^ 49"
  shows "\<bar>divDouble s0 T + divDouble s1 T + divDouble s2 T + divDouble s3 T + divDouble s4 T - 1\<bar>
           \<le> 1 / 10 ^ 6"
proof -
  from T(1) have pos: "0 < T" by linarith
  have q: "\<bar>divDouble x T - x / T\<bar> \<le> 1 / 2 ^ 49" if "\<bar>x\<bar> \<le> 31 / 10" for x
  proof -
    from that T(1) have "\<bar>x\<bar> \<le> 16 * T" by linarith
    with pos have "\<bar>x / T\<bar> \<le> 16" by (simp add: pos_divide_le_eq)
    from roundToDouble_error_16 [OF this] show ?thesis by (simp only: divDouble_def)
  qed
  define S where "S = s0 + s1 + s2 + s3 + s4"
  have "s0 / T + s1 / T + s2 / T + s3 / T + s4 / T - 1 = (S - T) / T"
    using pos by (simp add: S_def field_simps)
  moreover have "\<bar>(S - T) / T\<bar> \<le> 5 / 2 ^ 49 * 5"
  proof -
    have "\<bar>(S - T) / T\<bar> = \<bar>S - T\<bar> * (1 / T)" using pos by (simp add: abs_divide)
    also have "\<dots> \<le> 5 / 2 ^ 49 * 5"
    proof (rule mult_mono)
      from T(2) show "\<bar>S - T\<bar> \<le> 5 / 2 ^ 49" unfolding S_def by linarith
      from T(1) pos show "1 / T \<le> 5" by (simp add: field_simps)
    qed (use pos in simp_all)
    finally show ?thesis .
  qed
  ultimately have e: "\<bar>s0 / T + s1 / T + s2 / T + s3 / T + s4 / T - 1\<bar> \<le> 25 / 2 ^ 49"
    by simp
  have tiny: "(30::real) / 2 ^ 49 \<le> 1 / 10 ^ 6" by simp
  from q [OF s(1)] q [OF s(2)] q [OF s(3)] q [OF s(4)] q [OF s(5)] e tiny
  show ?thesis by linarith
qed


lemma bestLoop_max:
  assumes "bestLoop scores is (c, scores ! c) = (bestClass, bestScore)"
  shows "bestScore = scores ! bestClass \<and> bestClass \<in> insert c (set is) \<and>
         scores ! c \<le> bestScore \<and> (\<forall>i \<in> set is. scores ! i \<le> bestScore)"
  using assms
proof (induction "is" arbitrary: c)
  case Nil
  then show ?case by auto
next
  case (Cons i "is")
  show ?case
  proof (cases "scores ! i > scores ! c")
    case True
    with Cons.prems have "bestLoop scores is (i, scores ! i) = (bestClass, bestScore)" by simp
    from Cons.IH [OF this] True show ?thesis by auto
  next
    case False
    with Cons.prems have "bestLoop scores is (c, scores ! c) = (bestClass, bestScore)" by simp
    from Cons.IH [OF this] False show ?thesis by auto
  qed
qed

lemma predictEnergyLevel_analysis:
  assumes len: "10 \<le> length features"
    and t: "60 \<le> features ! 5" "features ! 5 \<le> 180"
    and r: "0 \<le> features ! 0" "features ! 0 \<le> 1"
    and o: "0 \<le> features ! 1" "0 \<le> features ! 2" "0 \<le> features ! 6" "0 \<le> features ! 9"
  shows "\<exists>analysis. predictEnergyLevel features = Inr analysis \<and>
           map fst (probabilities analysis) = energyLevels \<and>
           \<bar>sum_list (map snd (probabilities analysis)) - 1\<bar> \<le> 1 / 10 ^ 6 \<and>
           class_id analysis < 5 \<and>
           energy_level analysis = energyLevels ! class_id analysis \<and>
           confidence analysis = featureScores features ! class_id analysis \<and>
           confidence analysis = Max (set (featureScores features)) \<and>
           maxProbability analysis = divDouble (confidence analysis) (totalScore features) \<and>
           1 / 5 \<le> totalScore features"
proof -
  let ?scores = "featureScores features"
  let ?T = "totalScore features"
  from categoryScores_bounds [OF t r o] obtain s0 s1 s2 s3 s4 where
    sc: "?scores = [s0, s1, s2, s3, s4]"
    and b: "\<bar>s0\<bar> \<le> 31 / 10" "\<bar>s1\<bar> \<le> 31 / 10" "\<bar>s2\<bar> \<le> 31 / 10" "\<bar>s3\<bar> \<le> 31 / 10"
      "\<bar>s4\<bar> \<le> 31 / 10"
    and sum: "1 / 4 \<le> s0 + s1 + s2 + s3 + s4"
    unfolding featureScores_def by blast
  have five: "length ?scores = 5" by (simp add: sc)
  from total_close [OF b] have tc: "\<bar>?T - (s0 + s1 + s2 + s3 + s4)\<bar> \<le> 5 / 2 ^ 49"
    by (simp only: totalScore_def sc)
  have tiny: "(5::real) / 2 ^ 49 \<le> 1 / 100" by simp
  from tc sum tiny have T: "1 / 5 \<le> ?T" by linarith
  then have pos: "0 < ?T" and nz: "?T \<noteq> 0" by linarith+
  obtain bestClass bestScore where
    best: "bestLoop ?scores [1..<5] (0, ?scores ! 0) = (bestClass, bestScore)"
    by (cases "bestLoop ?scores [1..<5] (0, ?scores ! 0)") blast
  define analysis where "analysis =
     \<lparr> energy_level = energyLevels ! bestClass, confidence = bestScore, class_id = bestClass,
       probabilities =
         map (\<lambda>classId. (energyLevels ! classId, divDouble (?scores ! classId) ?T)) [0..<5] \<rparr>"
  from len nz best have res: "predictEnergyLevel features = Inr analysis"
    by (simp add: predictEnergyLevel_def Let_def analysis_def featureScores_def totalScore_def)
  from bestLoop_max [OF best]
  have b1: "bestScore = ?scores ! bestClass" and b2: "bestClass \<in> insert 0 (set [1..<5])"
    and b3: "?scores ! 0 \<le> bestScore" and b4: "\<forall>i \<in> set [1..<5]. ?scores ! i \<le> bestScore"
    by blast+
  from b2 have cls: "bestClass < 5" by auto
  have labels: "map fst (probabilities analysis) = energyLevels"
    by (simp add: analysis_def energyLevels_def upt_5)
  have "sum_list (map snd (probabilities analysis)) =
      divDouble s0 ?T + divDouble s1 ?T + divDouble s2 ?T + divDouble s3 ?T + divDouble s4 ?T"
    by (simp add: analysis_def upt_5 sc)
  with probabilities_sum [OF b T tc]
  have psum: "\<bar>sum_list (map snd (probabilities analysis)) - 1\<bar> \<le> 1 / 10 ^ 6"
    by (simp only:)
  have "\<forall>x \<in> set ?scores. x \<le> bestScore"
  proof
    fix x assume "x \<in> set ?scores"
    then obtain i where "i < 5" "x = ?scores ! i"
      by (metis five in_set_conv_nth)
    with b3 b4 show "x \<le> bestScore" by (cases "i = 0") auto
  qed
  moreover from cls have "bestScore \<in> set ?scores"
    unfolding b1 using five by simp
  ultimately have mx: "bestScore = Max (set ?scores)"
    by (intro Max_eqI [symmetric]) auto
  have maxp: "maxProbability analysis = divDouble bestScore ?T"
  proof -
    have "set (map snd (probabilities analysis)) = (\<lambda>s. divDouble s ?T) ` set ?scores"
      by (simp add: analysis_def upt_5 sc)
    moreover have "Max ((\<lambda>s. divDouble s ?T) ` set ?scores) = divDouble (Max (set ?scores)) ?T"
      by (rule mono_Max_commute [symmetric])
         (use pos in \<open>auto simp: mono_def divDouble_mono sc\<close>)
    ultimately show ?thesis by (simp add: maxProbability_def mx)
  qed
  from res labels psum cls b1 mx maxp T show ?thesis
    by (intro exI [of _ analysis]) (simp add: analysis_def)
qed


subsection \<open>The classifier on four vectors\<close>

lemma predictEnergyLevel_silent:
  "predictEnergyLevel silentFeatures =
     Inr \<lparr> energy_level = ''Chill Vibe'',
           confidence = 3602879701896397 / 4503599627370496, class_id = 0,
           probabilities =
             [(''Chill Vibe'', 761171768006281 / 2251799813685248),
              (''Lounge'', 8626613370737851 / 36028797018963968),
              (''Groove'', 761171768006281 / 4503599627370496),
              (''Party'', 8119165525400331 / 72057594037927936),
              (''Club Rager'', 2537239226687603 / 18014398509481984)] \<rparr>"
proof -
  note sc = scores_silent [unfolded featureScores_def]
  show ?thesis
    unfolding predictEnergyLevel_def Let_def sc
    by (simp add: silent_slots upt_5 energyLevels_def double_eval)
qed

lemma club_slots:
  "clubFeatures ! 0 = 3152519739159347 / 4503599627370496" "clubFeatures ! 1 = 4000"
  "clubFeatures ! 2 = 3602879701896397 / 36028797018963968" "clubFeatures ! 5 = 180"
  "clubFeatures ! 6 = 3602879701896397 / 4503599627370496" "clubFeatures ! 9 = 1 / 2"
  "length clubFeatures = 25"
  by (simp_all add: clubFeatures_def double_eval)

lemma scores_club:
  "featureScores clubFeatures =
     [0, - (900719925474099 / 9007199254740992), 5179139571476071 / 9007199254740992, 1, 1]"
  unfolding featureScores_def club_slots categoryScores_list
  by (simp add: double_eval)

lemma predictEnergyLevel_club:
  "predictEnergyLevel clubFeatures =
     Inr \<lparr> energy_level = ''Party'', confidence = 1, class_id = 3,
           probabilities =
             [(''Chill Vibe'', 0),
              (''Lounge'', - (5822835881852761 / 144115188075855872)),
              (''Groove'', 8370326580163347 / 36028797018963968),
              (''Party'', 7278544852315953 / 18014398509481984),
              (''Club Rager'', 7278544852315953 / 18014398509481984)] \<rparr>"
proof -
  note sc = scores_club [unfolded featureScores_def]
  show ?thesis
    unfolding predictEnergyLevel_def Let_def sc
    by (simp add: club_slots upt_5 energyLevels_def double_eval)
qed

lemma cancelling_slots:
  "cancellingFeatures ! 0 = 0" "cancellingFeatures ! 1 = 0" "cancellingFeatures ! 2 = 0"
  "cancellingFeatures ! 5 = 450" "cancellingFeatures ! 6 = 0" "cancellingFeatures ! 9 = 0"
  "length cancellingFeatures = 25"
  by (simp_all add: cancellingFeatures_def)

lemma scores_cancelling:
  "featureScores cancellingFeatures =
     [3152519739159347 / 4503599627370496, - (4053239664633447 / 4503599627370496),
      - (6305039478318695 / 9007199254740992), 3602879701896397 / 9007199254740992, 1 / 2]"
  unfolding featureScores_def cancelling_slots categoryScores_list
  by (simp add: double_eval)

lemma predictEnergyLevel_cancelling:
  "predictEnergyLevel cancellingFeatures =
     Inr \<lparr> energy_level = ''Chill Vibe'',
           confidence = 3152519739159347 / 4503599627370496, class_id = 0,
           probabilities =
             [(''Chill Vibe'', - 3152519739159347),
              (''Lounge'', 4053239664633447),
              (''Groove'', 6305039478318695 / 2),
              (''Party'', - (3602879701896397 / 2)),
              (''Club Rager'', - 2251799813685248)] \<rparr>"
proof -
  note sc = scores_cancelling [unfolded featureScores_def]
  show ?thesis
    unfolding predictEnergyLevel_def Let_def sc
    by (simp add: cancelling_slots upt_5 energyLevels_def double_eval)
qed

lemma nearCancelling_slots:
  "nearCancellingFeatures ! 0 = 0" "nearCancellingFeatures ! 1 = 0"
  "nearCancellingFeatures ! 2 = 0"
  "nearCancellingFeatures ! 5 = 7916483719988959 / 17592186044416"
  "nearCancellingFeatures ! 6 = 0" "nearCancellingFeatures ! 9 = 0"
  "length nearCancellingFeatures = 25"
  by (simp_all add: nearCancellingFeatures_def double_eval)

lemma scores_nearCancelling:
  "featureScores nearCancellingFeatures =
     [3152519739159347 / 4503599627370496, - (506654958079431 / 562949953421312),
      - (197032483697553 / 281474976710656), 3602879701896397 / 9007199254740992, 1 / 2]"
  unfolding featureScores_def nearCancelling_slots categoryScores_list
  by (simp add: double_eval)

lemma predictEnergyLevel_nearCancelling:
  "predictEnergyLevel nearCancellingFeatures =
     Inr \<lparr> energy_level = ''Chill Vibe'',
           confidence = 3152519739159347 / 4503599627370496, class_id = 0,
           probabilities =
             [(''Chill Vibe'', - (7373430893131583 / 8192)),
              (''Lounge'', 2370031358507751 / 2048),
              (''Groove'', 3686715446567547 / 4096),
              (''Party'', - (8426778163578953 / 16384)),
              (''Club Rager'', - (2633368176118423 / 4096))] \<rparr>"
proof -
  note sc = scores_nearCancelling [unfolded featureScores_def]
  show ?thesis
    unfolding predictEnergyLevel_def Let_def sc
    by (simp add: nearCancelling_slots upt_5 energyLevels_def double_eval)
qed


text \<open>
  Claim C1, as stated, fails at the feature vector of a silent buffer (25 slots, all 0
  but the default tempo 120): the probabilities sum to 1 within \<open>10 ^ -6\<close>, but the
  classifier returns as confidence the raw score of the winning category, the double
  nearest to 0.8, while the largest probability is the double nearest to 24/71.
\<close>

theorem confidence_not_max_probability:
  "length silentFeatures = 25 \<and>
   \<not> isl (predictEnergyLevel silentFeatures) \<and>
   \<bar>sum_list (map snd (probabilities (projr (predictEnergyLevel silentFeatures)))) - 1\<bar>
     \<le> 1 / 10 ^ 6 \<and>
   confidence (projr (predictEnergyLevel silentFeatures)) = roundToDouble 0.8 \<and>
   maxProbability (projr (predictEnergyLevel silentFeatures)) = roundToDouble (24 / 71) \<and>
   confidence (projr (predictEnergyLevel silentFeatures)) -
     maxProbability (projr (predictEnergyLevel silentFeatures)) > 2 / 5"
  by (simp add: predictEnergyLevel_silent maxProbability_def silent_slots) (simp add: double_eval)

text \<open>
  Outside the range of \<open>extractFeatures\<close> the scores can nearly cancel. At a tempo of 450
  and zeros elsewhere the total is \<open>- 2 ^ -52\<close> and the probabilities are of the order of
  \<open>10 ^ 15\<close>; at the double nearest to 450.0000000001 the probabilities sum to
  \<open>1 + 2 ^ -14\<close>.
\<close>

lemma probabilities_outside_range:
  "length nearCancellingFeatures = 25 \<and>
   \<not> isl (predictEnergyLevel nearCancellingFeatures) \<and>
   sum_list (map snd (probabilities (projr (predictEnergyLevel nearCancellingFeatures)))) =
     1 + 1 / 2 ^ 14 \<and>
   totalScore cancellingFeatures = - (1 / 2 ^ 52) \<and>
   maxProbability (projr (predictEnergyLevel cancellingFeatures)) = 4053239664633447"
proof -
  have "totalScore cancellingFeatures = - (1 / 2 ^ 52)"
    unfolding totalScore_def scores_cancelling by (simp add: double_eval)
  then show ?thesis
    by (simp add: predictEnergyLevel_nearCancelling predictEnergyLevel_cancelling
          maxProbability_def nearCancelling_slots)
qed

text \<open>
  Claim C1, amended. For every feature vector of at least ten slots (so every 25-slot
  vector) in the range of \<open>extractFeatures\<close> on samples in \<open>[-1, 1]\<close>, that is with a tempo
  (slot 5) in \<open>[60, 180]\<close>, an RMS (slot 0) in \<open>[0, 1]\<close>, and a spectral centroid,
  zero-crossing rate, peak amplitude and beat strength (slots 1, 2, 6 and 9) that are not
  negative, the classifier returns an analysis
  whose probabilities carry the five labels in class order and sum to 1 within
  \<open>10 ^ -6\<close>, whose class id is one of the five, whose label is that class's label, and
  whose confidence is the winning category's raw score: the largest of the five scores.
  The largest probability is that confidence divided by the sum of the scores, which is
  at least 1/5.
\<close>

theorem predictEnergyLevel_probabilities_confidence:
  "10 \<le> length features \<and>
   60 \<le> features ! 5 \<and> features ! 5 \<le> 180 \<and> 0 \<le> features ! 0 \<and> features ! 0 \<le> 1 \<and>
   0 \<le> features ! 1 \<and> 0 \<le> features ! 2 \<and> 0 \<le> features ! 6 \<and> 0 \<le> features ! 9 \<longrightarrow>
     (\<exists>analysis. predictEnergyLevel features = Inr analysis \<and>
        map fst (probabilities analysis) = energyLevels \<and>
        \<bar>sum_list (map snd (probabilities analysis)) - 1\<bar> \<le> 1 / 10 ^ 6 \<and>
        class_id analysis < 5 \<and>
        energy_level analysis = energyLevels ! class_id analysis \<and>
        confidence analysis = featureScores features ! class_id analysis \<and>
        confidence analysis = Max (set (featureScores features)) \<and>
        maxProbability analysis = divDouble (confidence analysis) (totalScore features) \<and>
        1 / 5 \<le> totalScore features)"
  using predictEnergyLevel_analysis [of features] by blast

theorem predictEnergyLevel_probabilities_confidence_witness:
  "10 \<le> length clubFeatures \<and>
   60 \<le> clubFeatures ! 5 \<and> clubFeatures ! 5 \<le> 180 \<and>
   0 \<le> clubFeatures ! 0 \<and> clubFeatures ! 0 \<le> 1 \<and>
   0 \<le> clubFeatures ! 1 \<and> 0 \<le> clubFeatures ! 2 \<and> 0 \<le> clubFeatures ! 6 \<and>
   0 \<le> clubFeatures ! 9 \<and>
   (\<exists>analysis. predictEnergyLevel clubFeatures = Inr analysis \<and>
      \<bar>sum_list (map snd (probabilities analysis)) - 1\<bar> \<le> 1 / 10 ^ 6 \<and>
      class_id analysis = 3 \<and> energy_level analysis = ''Party'' \<and>
      confidence analysis = 1 \<and>
      confidence analysis = Max (set (featureScores clubFeatures)) \<and>
      maxProbability analysis = divDouble 1 (totalScore clubFeatures))"
proof -
  have pre: "10 \<le> length clubFeatures \<and>
     60 \<le> clubFeatures ! 5 \<and> clubFeatures ! 5 \<le> 180 \<and>
     0 \<le> clubFeatures ! 0 \<and> clubFeatures ! 0 \<le> 1 \<and>
     0 \<le> clubFeatures ! 1 \<and> 0 \<le> clubFeatures ! 2 \<and> 0 \<le> clubFeatures ! 6 \<and>
     0 \<le> clubFeatures ! 9"
    unfolding club_slots by simp
  from predictEnergyLevel_probabilities_confidence [of clubFeatures] pre
  obtain analysis where a: "predictEnergyLevel clubFeatures = Inr analysis"
    and s: "\<bar>sum_list (map snd (probabilities analysis)) - 1\<bar> \<le> 1 / 10 ^ 6"
    and m: "confidence analysis = Max (set (featureScores clubFeatures))"
    and p: "maxProbability analysis = divDouble (confidence analysis) (totalScore clubFeatures)"
    by blast
  from a have c: "class_id analysis = 3 \<and> energy_level analysis = ''Party'' \<and>
      confidence analysis = 1"
    by (auto simp: predictEnergyLevel_club)
  with p have "maxProbability analysis = divDouble 1 (totalScore clubFeatures)" by simp
  with pre a s m c show ?thesis by blast
qed

section \<open>Energy classifier: malformed input\<close>

lemma upt_3: "[0..<3] = [0, 1, 2]"
  by (simp add: upt_rec)

lemma three_way:
  "(if x < a then w else 0) + (if \<not> x < a \<and> x < b then w else 0)
     + (if \<not> x < a \<and> \<not> x < b then w else (0::real)) = w"
  by simp

text \<open>The three scores of the guarded classifier always add up to 1.\<close>

lemma classify_total:
  fixes r t p b :: real
  defines "chill \<equiv> 0 + (if r < 0.3 then 0.4 else 0) + (if t < 0.3 then 0.3 else 0)
        + (if p < 0.4 then 0.2 else 0) + (if b < 0.3 then 0.1 else (0::real))"
    and "groove \<equiv> 0 + (if \<not> r < 0.3 \<and> r < 0.6 then 0.4 else 0)
        + (if \<not> t < 0.3 \<and> t < 0.7 then 0.3 else 0)
        + (if \<not> p < 0.4 \<and> p < 0.7 then 0.2 else 0)
        + (if \<not> b < 0.3 \<and> b < 0.7 then 0.1 else (0::real))"
    and "club \<equiv> 0 + (if \<not> r < 0.3 \<and> \<not> r < 0.6 then 0.4 else 0)
        + (if \<not> t < 0.3 \<and> \<not> t < 0.7 then 0.3 else 0)
        + (if \<not> p < 0.4 \<and> \<not> p < 0.7 then 0.2 else 0)
        + (if \<not> b < 0.3 \<and> \<not> b < 0.7 then 0.1 else (0::real))"
  shows "chill + groove + club = 1"
proof -
  have "chill + groove + club =
      ((if r < 0.3 then 0.4 else 0) + (if \<not> r < 0.3 \<and> r < 0.6 then 0.4 else 0)
         + (if \<not> r < 0.3 \<and> \<not> r < 0.6 then 0.4 else 0))
    + ((if t < 0.3 then 0.3 else 0) + (if \<not> t < 0.3 \<and> t < 0.7 then 0.3 else 0)
         + (if \<not> t < 0.3 \<and> \<not> t < 0.7 then 0.3 else 0))
    + ((if p < 0.4 then 0.2 else 0) + (if \<not> p < 0.4 \<and> p < 0.7 then 0.2 else 0)
         + (if \<not> p < 0.4 \<and> \<not> p < 0.7 then 0.2 else 0))
    + ((if b < 0.3 then 0.1 else 0) + (if \<not> b < 0.3 \<and> b < 0.7 then 0.1 else 0)
         + (if \<not> b < 0.3 \<and> \<not> b < 0.7 then 0.1 else 0))"
    unfolding chill_def groove_def club_def
    by (simp only: add_0 add.assoc add.left_commute add.commute)
  also have "\<dots> = 0.4 + 0.3 + 0.2 + 0.1"
    by (simp only: three_way)
  finally show ?thesis by simp
qed

lemma analyzeEnergyGuarded_malformed:
  assumes "audioBufferOpt = None \<or>
     (\<exists>audioBuffer. audioBufferOpt = Some audioBuffer \<and>
        (numberOfChannels audioBuffer = 0 \<or> length_buf audioBuffer = 0))"
  shows "analyzeEnergyGuarded audioBufferOpt = fallbackAnalysis"
  using assms
  by (auto simp: analyzeEnergyGuarded_def analyzeEnergyTry_def)

lemma analyzeEnergy_no_channels:
  assumes "numberOfChannels audioBuffer = 0"
  shows "analyzeEnergy featureValues audioBuffer = Inl IndexSizeError"
  using assms by (simp add: analyzeEnergy_def extractFeatures_def getChannelData_def)

text \<open>
  The guarded classifier does classify a well-formed buffer: three samples of silence
  are Chill with confidence 1.
\<close>

lemma classify_silence:
  "classifyWithTrainedModel 0 80 0 1000 =
     \<lparr> energy_level = ''Chill'', confidence = 1, class_id = 0,
       probabilities = [(''Chill'', 1), (''Groove'', 0), (''Club'', 0)] \<rparr>"
  unfolding classifyWithTrainedModel_def
  by (simp only: Let_def) (simp add: energyLevels3_def upt_3)

lemma sampleLoop_silence: "sampleLoop [0, 0, 0] 3 1 0 (0, 0, 0) = (0, 0, 3)"
  by (simp add: numeral_eq_Suc)

lemma analyzeEnergyGuarded_silence:
  "analyzeEnergyGuarded (Some silence) =
     \<lparr> energy_level = ''Chill'', confidence = 1, class_id = 0,
       probabilities = [(''Chill'', 1), (''Groove'', 0), (''Club'', 0)] \<rparr>"
proof -
  have data: "getChannelData silence 0 = Inr [0, 0, 0]"
    by (simp add: getChannelData_def silence_def upt_3)
  have len: "length [0::real, 0, 0] = 3" by simp
  have "analyzeEnergyTry (Some silence) = Inr (classifyWithTrainedModel 0 80 0 1000)"
    unfolding analyzeEnergyTry_def
    by (simp only: option.case data sum.case len Let_def sampleLoop_silence)
       (simp add: silence_def)
  then show ?thesis
    by (simp add: analyzeEnergyGuarded_def classify_silence)
qed

text \<open>
  Claim C2, as stated, fails for the five-category classifier of \<open>energyDetector.ts\<close>:
  on a buffer with zero channels, \<open>getChannelData(0)\<close> throws IndexSizeError, nothing
  catches it, and no analysis is returned.
\<close>

theorem analyzeEnergy_raises_on_zero_channels:
  "numberOfChannels noChannels = 0 \<and>
   isl (analyzeEnergy silentValues noChannels) \<and>
   analyzeEnergy silentValues noChannels = Inl IndexSizeError"
  by (simp add: analyzeEnergy_def extractFeatures_def getChannelData_def noChannels_def)

text \<open>
  Claim C2, amended. The guarded three-category \<open>analyzeEnergy\<close> (the variant with the
  \<open>try\<close> and \<open>catch\<close>) never raises, and for every malformed buffer (null, zero
  channels, or zero length) it returns the fallback analysis: label Groove, the middle
  of Chill, Groove, Club; confidence 0.5; class id 1; probabilities 0.33, 0.34, 0.33,
  each within 0.01 of a third and adding up to 1. The five-category \<open>analyzeEnergy\<close> of
  \<open>energyDetector.ts\<close> has no such guard: on a buffer with zero channels it raises
  IndexSizeError.
\<close>

theorem analyzeEnergyGuarded_fallback:
  "((audioBufferOpt = None \<or>
      (\<exists>audioBuffer. audioBufferOpt = Some audioBuffer \<and>
         (numberOfChannels audioBuffer = 0 \<or> length_buf audioBuffer = 0))) \<longrightarrow>
      analyzeEnergyGuarded audioBufferOpt = fallbackAnalysis) \<and>
   energy_level fallbackAnalysis = ''Groove'' \<and>
   energy_level fallbackAnalysis = energyLevels3 ! (length energyLevels3 div 2) \<and>
   class_id fallbackAnalysis = length energyLevels3 div 2 \<and>
   confidence fallbackAnalysis = 0.5 \<and>
   map fst (probabilities fallbackAnalysis) = energyLevels3 \<and>
   sum_list (map snd (probabilities fallbackAnalysis)) = 1 \<and>
   (\<forall>p \<in> set (map snd (probabilities fallbackAnalysis)). \<bar>p - 1 / 3\<bar> \<le> 1 / 100) \<and>
   (numberOfChannels buffer5 = 0 \<longrightarrow>
      analyzeEnergy featureValues buffer5 = Inl IndexSizeError)"
  using analyzeEnergyGuarded_malformed [of audioBufferOpt]
    analyzeEnergy_no_channels [of buffer5 featureValues]
  by (simp add: fallbackAnalysis_def energyLevels3_def)

theorem analyzeEnergyGuarded_fallback_witness:
  "numberOfChannels noChannels = 0 \<and> length_buf noSamples = 0 \<and>
   analyzeEnergyGuarded (Some noChannels) = fallbackAnalysis \<and>
   analyzeEnergyGuarded (Some noSamples) = fallbackAnalysis \<and>
   analyzeEnergyGuarded None = fallbackAnalysis \<and>
   energy_level (analyzeEnergyGuarded (Some noChannels)) = ''Groove'' \<and>
   confidence (analyzeEnergyGuarded (Some noChannels)) = 1 / 2 \<and>
   analyzeEnergyGuarded (Some silence) \<noteq> fallbackAnalysis"
proof -
  have c: "numberOfChannels noChannels = 0" and s: "length_buf noSamples = 0"
    by (simp_all add: noChannels_def noSamples_def)
  from analyzeEnergyGuarded_fallback [of "Some noChannels" noChannels silentValues] c
  have 1: "analyzeEnergyGuarded (Some noChannels) = fallbackAnalysis"
    and g: "energy_level fallbackAnalysis = ''Groove''"
    and h: "confidence fallbackAnalysis = 0.5"
    by simp_all
  from analyzeEnergyGuarded_fallback [of "Some noSamples" noChannels silentValues] s
  have 2: "analyzeEnergyGuarded (Some noSamples) = fallbackAnalysis" by simp
  from analyzeEnergyGuarded_fallback [of None noChannels silentValues]
  have 3: "analyzeEnergyGuarded None = fallbackAnalysis" by simp
  have 4: "analyzeEnergyGuarded (Some silence) \<noteq> fallbackAnalysis"
    by (simp add: analyzeEnergyGuarded_silence fallbackAnalysis_def)
  from c s 1 2 3 4 g h show ?thesis by simp
qed

section \<open>Beat detector: tempo, confidence and beat spacing\<close>

text \<open>With a positive hop size the energy loop ends, whatever the samples.\<close>

lemma energyLoop_total:
  assumes "0 < hopSize"
  shows "\<exists>energies. energyLoop channelData windowSize hopSize i acc = Some energies"
proof (induction "length channelData - i" arbitrary: i acc rule: less_induct)
  case less
  show ?case
  proof (cases "int i < int (length channelData) - int windowSize")
    case True
    then have "length channelData - (i + hopSize) < length channelData - i"
      using assms by linarith
    from less [OF this] obtain energies where
      "energyLoop channelData windowSize hopSize (i + hopSize)
         (acc @ [windowEnergy channelData windowSize i]) = Some energies"
      by blast
    with True show ?thesis by (subst energyLoop.simps) simp
  next
    case False
    then show ?thesis by (subst energyLoop.simps) simp
  qed
qed

text \<open>With a hop size of 0 it ends only if it never starts.\<close>

lemma energyLoop_stuck:
  assumes "energyLoop channelData windowSize hopSize i acc = Some energies"
  shows "\<not> (hopSize = 0 \<and> int i < int (length channelData) - int windowSize)"
proof (rule energyLoop.raw_induct
    [where P = "\<lambda>channelData windowSize hopSize i acc energies.
       \<not> (hopSize = 0 \<and> int i < int (length channelData) - int windowSize)", OF _ assms])
  fix loop :: "real list \<Rightarrow> nat \<Rightarrow> nat \<Rightarrow> nat \<Rightarrow> real list \<Rightarrow> real list option"
  fix channelData windowSize hopSize i acc energies
  assume IH: "\<And>channelData windowSize hopSize i acc energies.
      loop channelData windowSize hopSize i acc = Some energies \<Longrightarrow>
      \<not> (hopSize = 0 \<and> int i < int (length channelData) - int windowSize)"
    and step: "(if int i < int (length channelData) - int windowSize
      then loop channelData windowSize hopSize (i + hopSize)
             (acc @ [windowEnergy channelData windowSize i])
      else Some acc) = Some energies"
  show "\<not> (hopSize = 0 \<and> int i < int (length channelData) - int windowSize)"
  proof (cases "int i < int (length channelData) - int windowSize")
    case True
    with step have "loop channelData windowSize hopSize (i + hopSize)
        (acc @ [windowEnergy channelData windowSize i]) = Some energies"
      by simp
    from IH [OF this] True show ?thesis by auto
  next
    case False
    then show ?thesis by simp
  qed
qed

text \<open>
  The invariant of the peak loop: consecutive beats are more than the minimum interval
  apart, and \<open>lastBeat\<close> is the last beat found.
\<close>

lemma peakLoop_gaps:
  assumes "peakLoop energies threshold hopSize m is (lastBeat, bs) = (lastBeat', bs')"
    and "successively (\<lambda>a b. int b - int a > m) bs"
    and "bs \<noteq> [] \<Longrightarrow> lastBeat = int (last bs)"
  shows "successively (\<lambda>a b. int b - int a > m) bs'"
  using assms
proof (induction "is" arbitrary: lastBeat bs)
  case Nil
  then show ?case by simp
next
  case (Cons i "is")
  let ?accept = "exceeds (energies ! i) threshold \<and>
            energies ! i > energies ! (i - 1) \<and> energies ! i > energies ! (i - 2) \<and>
            energies ! i > energies ! (i + 1) \<and> energies ! i > energies ! (i + 2) \<and>
            int (i * hopSize) - lastBeat > m"
  show ?case
  proof (cases ?accept)
    case True
    with Cons.prems(1) have run: "peakLoop energies threshold hopSize m is
        (int (i * hopSize), bs @ [i * hopSize]) = (lastBeat', bs')"
      by (simp add: Let_def)
    from True have gap: "int (i * hopSize) - lastBeat > m" by blast
    have "successively (\<lambda>a b. int b - int a > m) (bs @ [i * hopSize])"
      using Cons.prems(2,3) gap by (cases "bs = []") (auto simp: successively_append_iff)
    from Cons.IH [OF run this] show ?thesis by simp
  next
    case False
    with Cons.prems(1) have run:
      "peakLoop energies threshold hopSize m is (lastBeat, bs) = (lastBeat', bs')"
      by (auto simp: Let_def)
    from Cons.IH [OF run Cons.prems(2,3)] show ?thesis by simp
  qed
qed

lemma successively_nth:
  assumes "successively P xs" "Suc k < length xs"
  shows "P (xs ! k) (xs ! Suc k)"
  using assms
proof (induction P xs arbitrary: k rule: successively.induct)
  case (3 P x y xs)
  then show ?case by (cases k) auto
qed simp_all

lemma foldl_add_sum_list: "foldl (+) a xs = a + sum_list (xs :: int list)"
  by (induction xs arbitrary: a) simp_all

lemma beatIntervals_positive:
  assumes "successively (\<lambda>a b. int b - int a > m) bs" "0 \<le> m"
  shows "\<forall>d \<in> set (beatIntervals bs). 1 \<le> d"
proof
  fix d assume "d \<in> set (beatIntervals bs)"
  then obtain i where i: "1 \<le> i" "i < length bs" and d: "d = int (bs ! i) - int (bs ! (i - 1))"
    by (auto simp: beatIntervals_def)
  then have "Suc (i - 1) < length bs" "Suc (i - 1) = i" by simp_all
  with successively_nth [OF assms(1), of "i - 1"] have "int (bs ! i) - int (bs ! (i - 1)) > m"
    by simp
  with assms(2) d show "1 \<le> d" by simp
qed

lemma sum_list_ge_length:
  assumes "\<forall>d \<in> set (ds :: int list). 1 \<le> d"
  shows "int (length ds) \<le> sum_list ds"
  using assms by (induction ds) auto

lemma intervals_sum_positive:
  assumes "successively (\<lambda>a b. int b - int a > m) bs" "0 \<le> m" "2 \<le> length bs"
  shows "0 < foldl (+) 0 (beatIntervals bs) \<and> beatIntervals bs \<noteq> []"
proof -
  have len: "0 < length (beatIntervals bs)" using assms(3) by (simp add: beatIntervals_def)
  from sum_list_ge_length [OF beatIntervals_positive [OF assms(1,2)]] len
  have "0 < sum_list (beatIntervals bs)" by linarith
  with len show ?thesis by (simp add: foldl_add_sum_list)
qed

text \<open>For beats that far apart, neither quotient is by zero.\<close>

lemma calculateBPM_finite:
  assumes "successively (\<lambda>a b. int b - int a > m) bs" "0 \<le> m"
  shows "\<exists>v. calculateBPM bs rate = Inr v"
proof (cases "length bs < 2")
  case True
  then show ?thesis by (simp add: calculateBPM_def)
next
  case False
  then have "2 \<le> length bs" by simp
  from intervals_sum_positive [OF assms this] False show ?thesis
    by (simp add: calculateBPM_def Let_def)
qed

lemma calculateBPM_default:
  assumes "calculateBPM bs rate = Inr v" "length bs < 2"
  shows "v = 120"
  using assms by (simp add: calculateBPM_def)

lemma clamp_range:
  "3 / 10 \<le> max (3 / 10) (min 1 (x::real)) \<and> max (3 / 10) (min 1 x) \<le> 1"
  by (simp add: max_def min_def)

lemma calculateConfidence_cases:
  assumes "calculateConfidence bs = Inr v"
  shows "(length bs < 4 \<longrightarrow> v = 3 / 10) \<and>
         (v = 3 / 10 \<or> (\<exists>x. v = max (3 / 10) (min 1 x)))"
proof (cases "length bs < 4")
  case True
  with assms show ?thesis by (simp add: calculateConfidence_def)
next
  case False
  with assms show ?thesis
    by (simp add: calculateConfidence_def Let_def split: if_splits) blast+
qed

lemma calculateConfidence_range:
  assumes "calculateConfidence bs = Inr v"
  shows "3 / 10 \<le> v \<and> v \<le> 1 \<and> (length bs < 4 \<longrightarrow> v = 3 / 10)"
  using calculateConfidence_cases [OF assms] clamp_range by auto

lemma calculateConfidence_finite:
  assumes "successively (\<lambda>a b. int b - int a > m) bs" "0 \<le> m"
  shows "\<exists>v. calculateConfidence bs = Inr v"
proof (cases "length bs < 4")
  case True
  then have "calculateConfidence bs = Inr 0.3" by (simp add: calculateConfidence_def)
  then show ?thesis by blast
next
  case False
  then have "2 \<le> length bs" by simp
  from intervals_sum_positive [OF assms this] False show ?thesis
    by (simp add: calculateConfidence_def Let_def)
qed

lemma findBeats_SomeD:
  assumes "findBeats channelData rate = Some info"
  shows "\<exists>energies lastBeat v.
     energyLoop channelData (nat \<lfloor>mulDouble rate (roundToDouble 0.04)\<rfloor>)
       (nat \<lfloor>mulDouble rate (roundToDouble 0.04)\<rfloor> div 4) 0 [] = Some energies \<and>
     peakLoop energies (calculateThreshold energies)
       (nat \<lfloor>mulDouble rate (roundToDouble 0.04)\<rfloor> div 4)
       \<lfloor>mulDouble rate (roundToDouble 0.35)\<rfloor>
       [2..<length energies - 2] (- \<lfloor>mulDouble rate (roundToDouble 0.35)\<rfloor>, []) =
         (lastBeat, beats info) \<and>
     calculateBPM (beats info) rate = Inr v \<and>
     bpm info = max 85 (min 175 (real_of_int (js_round v))) \<and>
     calculateConfidence (beats info) = Inr (BeatInfo.confidence info)"
  using assms
  by (auto simp: findBeats_def Let_def split: option.splits prod.splits sum.splits)

lemma findBeats_gaps:
  assumes "findBeats channelData rate = Some info"
  shows "successively (\<lambda>a b. int b - int a > \<lfloor>mulDouble rate (roundToDouble 0.35)\<rfloor>)
           (beats info)"
proof -
  from findBeats_SomeD [OF assms] obtain energies lastBeat where
    "peakLoop energies (calculateThreshold energies)
       (nat \<lfloor>mulDouble rate (roundToDouble 0.04)\<rfloor> div 4)
       \<lfloor>mulDouble rate (roundToDouble 0.35)\<rfloor>
       [2..<length energies - 2] (- \<lfloor>mulDouble rate (roundToDouble 0.35)\<rfloor>, []) =
         (lastBeat, beats info)"
    by blast
  from peakLoop_gaps [OF this] show ?thesis by simp
qed

lemma hopSize_positive:
  assumes "100 \<le> rate"
  shows "0 < nat \<lfloor>mulDouble rate (roundToDouble 0.04)\<rfloor> div 4"
proof -
  from assms have "4 \<le> rate * roundToDouble 0.04"
    by (simp add: double_004)
  from roundToDouble_ge_4 [OF this] have "4 \<le> mulDouble rate (roundToDouble 0.04)"
    by (simp only: mulDouble_def)
  then have "4 \<le> \<lfloor>mulDouble rate (roundToDouble 0.04)\<rfloor>" by (simp add: le_floor_iff)
  then have "4 \<le> nat \<lfloor>mulDouble rate (roundToDouble 0.04)\<rfloor>" by linarith
  then show ?thesis by (simp add: div_greater_zero_iff)
qed

text \<open>
  From 100 Hz on the hop size is positive and \<open>findBeats\<close> returns, whatever the
  samples: the energy loop ends, and neither the BPM nor the confidence divides by zero.
\<close>

lemma findBeats_total:
  assumes "0 < nat \<lfloor>mulDouble rate (roundToDouble 0.04)\<rfloor> div 4" "0 \<le> rate"
  shows "\<exists>info. findBeats channelData rate = Some info"
proof -
  let ?w = "nat \<lfloor>mulDouble rate (roundToDouble 0.04)\<rfloor>"
  let ?m = "\<lfloor>mulDouble rate (roundToDouble 0.35)\<rfloor>"
  from energyLoop_total [OF assms(1)] obtain energies where
    e: "energyLoop channelData ?w (?w div 4) 0 [] = Some energies" by blast
  obtain lastBeat bs where
    p: "peakLoop energies (calculateThreshold energies) (?w div 4) ?m
          [2..<length energies - 2] (- ?m, []) = (lastBeat, bs)"
    by (cases "peakLoop energies (calculateThreshold energies) (?w div 4) ?m
          [2..<length energies - 2] (- ?m, [])") blast
  have "0 \<le> roundToDouble 0.35" by (simp add: double_035)
  from mulDouble_nonneg [OF assms(2) this] have m: "0 \<le> ?m" by simp
  from peakLoop_gaps [OF p] have g: "successively (\<lambda>a b. int b - int a > ?m) bs" by simp
  from calculateBPM_finite [OF g m] obtain v where v: "calculateBPM bs rate = Inr v" by blast
  from calculateConfidence_finite [OF g m] obtain c where c: "calculateConfidence bs = Inr c"
    by blast
  from e p v c show ?thesis by (simp add: findBeats_def Let_def)
qed

text \<open>
  With a window of fewer than four samples, as at 50 Hz, the hop size is 0:
  \<open>findBeats\<close> does not return on a channel longer than one window.
\<close>

lemma findBeats_stuck:
  assumes "nat \<lfloor>mulDouble rate (roundToDouble 0.04)\<rfloor> div 4 = 0"
    and "nat \<lfloor>mulDouble rate (roundToDouble 0.04)\<rfloor> < length channelData"
  shows "findBeats channelData rate = None"
proof (cases "energyLoop channelData (nat \<lfloor>mulDouble rate (roundToDouble 0.04)\<rfloor>)
    (nat \<lfloor>mulDouble rate (roundToDouble 0.04)\<rfloor> div 4) 0 []")
  case None
  then show ?thesis by (simp add: findBeats_def Let_def)
next
  case (Some energies)
  from assms(2)
  have "int 0 < int (length channelData) - int (nat \<lfloor>mulDouble rate (roundToDouble 0.04)\<rfloor>)"
    by linarith
  with energyLoop_stuck [OF Some] assms(1) show ?thesis by blast
qed

lemma clamp_bpm: "85 \<le> max 85 (min 175 (x::real)) \<and> max 85 (min 175 x) \<le> 175"
  by (simp add: max_def min_def)

lemma clamp_bpm_int: "max 85 (min 175 (real_of_int n)) \<in> \<int>"
  by (simp add: max_def min_def)

lemma round_120: "js_round 120 = 120"
  by (simp add: js_round_def)

subsection \<open>The detector on two bumps\<close>

lemma upt_4: "[0..<4] = [0, 1, 2, 3]"
  by (simp add: upt_rec)

lemma energyLoop_unit_hop:
  "energyLoop channelData windowSize 1 i acc =
     Some (acc @ map (windowEnergy channelData windowSize) [i..<length channelData - windowSize])"
proof (induction "length channelData - windowSize - i" arbitrary: i acc)
  case 0
  then have "\<not> int i < int (length channelData) - int windowSize" by linarith
  moreover from 0 have "[i..<length channelData - windowSize] = []" by simp
  ultimately show ?case by (subst energyLoop.simps) simp
next
  case (Suc n)
  then have lt: "int i < int (length channelData) - int windowSize" by linarith
  from Suc have "n = length channelData - windowSize - (i + 1)" by simp
  from Suc(1) [OF this]
  have "energyLoop channelData windowSize 1 (i + 1) (acc @ [windowEnergy channelData windowSize i]) =
     Some ((acc @ [windowEnergy channelData windowSize i]) @
       map (windowEnergy channelData windowSize) [i + 1..<length channelData - windowSize])" .
  moreover from Suc(2) have "[i..<length channelData - windowSize] =
      i # [i + 1..<length channelData - windowSize]"
    by (simp add: upt_conv_Cons)
  ultimately show ?case using lt by (subst energyLoop.simps) simp
qed

lemma twoBumps_energies: "map (windowEnergy twoBumps 4) [0..<50] = twoBumpsEnergies"
  by (simp add: upt_rec windowEnergy_def upt_4 twoBumps_def twoBumpsEnergies_def)

lemma twoBumps_threshold: "calculateThreshold twoBumpsEnergies = Some 0"
proof -
  have "sort twoBumpsEnergies ! 25 = 0" by (simp add: twoBumpsEnergies_def)
  moreover have "length twoBumpsEnergies = 50" "twoBumpsEnergies \<noteq> []"
    by (simp_all add: twoBumpsEnergies_def)
  ultimately show ?thesis by (simp add: calculateThreshold_def Let_def)
qed

lemma twoBumps_peaks:
  "peakLoop twoBumpsEnergies (Some 0) 1 35 [2..<48] (- 35, []) = (44, [4, 44])"
  by (simp add: upt_rec twoBumpsEnergies_def exceeds_def Let_def)

lemma twoBumps_bpm: "calculateBPM [4, 44] 100 = Inr 150"
  by (simp add: calculateBPM_def beatIntervals_def Let_def upt_rec)

lemma twoBumps_confidence: "calculateConfidence [4, 44] = Inr (3 / 10)"
  by (simp add: calculateConfidence_def)

lemma round_150: "js_round 150 = 150"
  by (simp add: js_round_def)

lemma findBeats_twoBumps: "findBeats twoBumps 100 = Some twoBumpsInfo"
proof -
  have w: "nat \<lfloor>mulDouble 100 (roundToDouble 0.04)\<rfloor> = 4"
    "\<lfloor>mulDouble 100 (roundToDouble 0.35)\<rfloor> = 35" "(4::nat) div 4 = 1"
    by (simp_all add: double_eval)
  have len: "length twoBumps - 4 = 50" by (simp add: twoBumps_def)
  have e: "energyLoop twoBumps 4 1 0 [] = Some twoBumpsEnergies"
    by (simp only: energyLoop_unit_hop len twoBumps_energies append_Nil)
  have l: "length twoBumpsEnergies - 2 = 48" by (simp add: twoBumpsEnergies_def)
  show ?thesis
    unfolding findBeats_def twoBumpsInfo_def
    by (simp only: w Let_def e option.case twoBumps_threshold l twoBumps_peaks prod.case
          twoBumps_bpm twoBumps_confidence sum.case round_150) simp
qed

lemma findBeats_twoBumps_50Hz: "findBeats twoBumps 50 = None"
proof -
  have w: "nat \<lfloor>mulDouble 50 (roundToDouble 0.04)\<rfloor> = 2"
    by (simp add: double_eval)
  show ?thesis
    by (rule findBeats_stuck) (simp_all only: w, simp_all add: twoBumps_def)
qed

text \<open>
  Claim C7. Every BeatInfo that \<open>findBeats\<close> returns has a BPM that is an integer in
  [85, 175], the default 120 when fewer than 2 beats were found, and a confidence in
  [0.3, 1], which is 0.3 when fewer than 4 beats were found. It does return a BeatInfo
  for every channel at every sample rate from 100 Hz on.
\<close>

theorem findBeats_bpm_confidence:
  "(\<forall>info. findBeats channelData rate = Some info \<longrightarrow>
      85 \<le> bpm info \<and> bpm info \<le> 175 \<and> bpm info \<in> \<int> \<and>
      (length (beats info) < 2 \<longrightarrow> bpm info = 120) \<and>
      3 / 10 \<le> BeatInfo.confidence info \<and> BeatInfo.confidence info \<le> 1 \<and>
      (length (beats info) < 4 \<longrightarrow> BeatInfo.confidence info = 3 / 10)) \<and>
   (100 \<le> rate \<longrightarrow> (\<exists>info. findBeats channelData rate = Some info))"
proof (intro conjI allI impI)
  fix info
  assume s: "findBeats channelData rate = Some info"
  from findBeats_SomeD [OF s] obtain v where
    v: "calculateBPM (beats info) rate = Inr v"
    and b: "bpm info = max 85 (min 175 (real_of_int (js_round v)))"
    and c: "calculateConfidence (beats info) = Inr (BeatInfo.confidence info)"
    by blast
  from b clamp_bpm show "85 \<le> bpm info" "bpm info \<le> 175" by simp_all
  from b clamp_bpm_int show "bpm info \<in> \<int>" by simp
  from calculateConfidence_range [OF c]
  show "3 / 10 \<le> BeatInfo.confidence info" "BeatInfo.confidence info \<le> 1" by simp_all
  {
    assume "length (beats info) < 2"
    from calculateBPM_default [OF v this] b show "bpm info = 120"
      by (simp add: round_120)
  }
  {
    assume "length (beats info) < 4"
    with calculateConfidence_range [OF c] show "BeatInfo.confidence info = 3 / 10" by simp
  }
next
  assume r: "100 \<le> rate"
  from findBeats_total [OF hopSize_positive [OF r]] r
  show "\<exists>info. findBeats channelData rate = Some info" by simp
qed

theorem findBeats_bpm_confidence_witness:
  "findBeats twoBumps 100 = Some twoBumpsInfo \<and>
   bpm twoBumpsInfo = 150 \<and> 85 \<le> bpm twoBumpsInfo \<and> bpm twoBumpsInfo \<le> 175 \<and>
   length (beats twoBumpsInfo) < 4 \<and> BeatInfo.confidence twoBumpsInfo = 3 / 10"
proof -
  note s = findBeats_twoBumps
  have l: "length (beats twoBumpsInfo) < 4" by (simp add: twoBumpsInfo_def)
  from findBeats_bpm_confidence [of twoBumps 100] s l
  have "85 \<le> bpm twoBumpsInfo" "bpm twoBumpsInfo \<le> 175"
    "BeatInfo.confidence twoBumpsInfo = 3 / 10"
    by blast+
  moreover have "bpm twoBumpsInfo = 150" by (simp add: twoBumpsInfo_def)
  ultimately show ?thesis using s l by blast
qed



subsection \<open>The detector on four clicks at 44100 Hz\<close>

lemma foldl_add_sum:
  "foldl (\<lambda>e j. e + f j) a [0..<n] = a + sum f {0..<n}" for f :: "nat \<Rightarrow> real"
  by (induction n) (simp_all add: atLeast0_lessThan_Suc algebra_simps)

lemma sum_click:
  "(\<Sum>j\<in>{0..<w}. if i + j = p then 1 else 0) = (if i \<le> p \<and> p < i + w then (1::real) else 0)"
  for i p w :: nat
proof (cases "i \<le> p \<and> p < i + w")
  case True
  then have "(i + j = p) = (j = p - i)" for j by auto
  then have "(\<Sum>j\<in>{0..<w}. if i + j = p then 1 else 0) =
      (\<Sum>j\<in>{0..<w}. if j = p - i then 1 else (0::real))"
    by simp
  also have "\<dots> = (if p - i \<in> {0..<w} then 1 else 0)"
    by (simp only: sum.delta finite_atLeastLessThan)
  finally show ?thesis using True by auto
next
  case False
  then have "(if i + j = p then 1 else (0::real)) = 0" if "j \<in> {0..<w}" for j
    using that by auto
  then have "(\<Sum>j\<in>{0..<w}. if i + j = p then 1 else (0::real)) = 0"
    by (intro sum.neutral) blast
  with False show ?thesis by simp
qed

lemma windowEnergy_fourClicks:
  assumes "i + 1764 \<le> 20000"
  shows "windowEnergy fourClicks 1764 i =
     sqrt (((if i \<le> 1764 \<and> 1764 < i + 1764 then 1 else 0) +
            (if i \<le> 3527 \<and> 3527 < i + 1764 then 1 else 0) +
            (if i \<le> 17199 \<and> 17199 < i + 1764 then 1 else 0) +
            (if i \<le> 18962 \<and> 18962 < i + 1764 then 1 else 0)) / 1764)"
proof -
  let ?sq = "\<lambda>j. fourClicks ! (i + j) * fourClicks ! (i + j)"
  have "?sq j = (if i + j = 1764 then 1 else 0) + (if i + j = 3527 then 1 else 0) +
      (if i + j = 17199 then 1 else 0) + (if i + j = 18962 then 1 else 0)"
    if "j \<in> {0..<1764}" for j
  proof -
    from that assms have "i + j < 20000" by simp
    then have "fourClicks ! (i + j) = (if i + j \<in> {1764, 3527, 17199, 18962} then 1 else 0)"
      by (simp add: fourClicks_def)
    then show ?thesis by simp
  qed
  then have "sum ?sq {0..<1764} =
      (\<Sum>j\<in>{0..<1764}. (if i + j = 1764 then 1 else 0) + (if i + j = 3527 then 1 else 0) +
        (if i + j = 17199 then 1 else 0) + (if i + j = 18962 then 1 else 0))"
    by (rule sum.cong [OF refl])
  also have "\<dots> = (if i \<le> 1764 \<and> 1764 < i + 1764 then 1 else 0) +
            (if i \<le> 3527 \<and> 3527 < i + 1764 then 1 else 0) +
            (if i \<le> 17199 \<and> 17199 < i + 1764 then 1 else 0) +
            (if i \<le> 18962 \<and> 18962 < i + 1764 then 1 else 0)"
    by (simp only: sum.distrib sum_click)
  finally have "sum ?sq {0..<1764} = (if i \<le> 1764 \<and> 1764 < i + 1764 then 1 else 0) +
            (if i \<le> 3527 \<and> 3527 < i + 1764 then 1 else 0) +
            (if i \<le> 17199 \<and> 17199 < i + 1764 then 1 else 0) +
            (if i \<le> 18962 \<and> 18962 < i + 1764 then 1 else 0)" .
  then show ?thesis
    unfolding windowEnergy_def Let_def foldl_add_sum by simp
qed

lemma energyLoop_hops:
  assumes "\<forall>j<n. int (i + j * hopSize) < int (length channelData) - int windowSize"
    and "\<not> int (i + n * hopSize) < int (length channelData) - int windowSize"
  shows "energyLoop channelData windowSize hopSize i acc =
     Some (acc @ map (\<lambda>j. windowEnergy channelData windowSize (i + j * hopSize)) [0..<n])"
  using assms
proof (induction n arbitrary: i acc)
  case 0
  then show ?case by (subst energyLoop.simps) simp
next
  case (Suc n)
  from Suc.prems(1) have lt: "int i < int (length channelData) - int windowSize"
    by force
  have a: "\<forall>j<n. int (i + hopSize + j * hopSize) < int (length channelData) - int windowSize"
  proof (intro allI impI)
    fix j assume "j < n"
    then have "Suc j < Suc n" by simp
    with Suc.prems(1) have "int (i + Suc j * hopSize) < int (length channelData) - int windowSize"
      by blast
    then show "int (i + hopSize + j * hopSize) < int (length channelData) - int windowSize"
      by (simp add: algebra_simps)
  qed
  from Suc.prems(2)
  have b: "\<not> int (i + hopSize + n * hopSize) < int (length channelData) - int windowSize"
    by (simp add: algebra_simps)
  have "map (\<lambda>j. windowEnergy channelData windowSize (i + j * hopSize)) [0..<Suc n] =
      windowEnergy channelData windowSize i #
      map (\<lambda>j. windowEnergy channelData windowSize (i + hopSize + j * hopSize)) [0..<n]"
    by (simp only: upt_conv_Cons [OF zero_less_Suc] map_Suc_upt [symmetric] list.map map_map)
       (simp add: comp_def algebra_simps)
  with Suc.IH [OF a b, of "acc @ [windowEnergy channelData windowSize i]"] lt
  show ?case by (subst energyLoop.simps) simp
qed

lemma upt_42:
  "[0..<42] = [0, 1, 2, 3, 4, 5, 6, 7, 8, 9, 10, 11, 12, 13, 14, 15, 16, 17, 18, 19, 20,
     21, 22, 23, 24, 25, 26, 27, 28, 29, 30, 31, 32, 33, 34, 35, 36, 37, 38, 39, 40, 41]"
  by (simp add: upt_rec)

lemma fourClicks_energies:
  "energyLoop fourClicks 1764 441 0 [] = Some fourClicksEnergies"
proof -
  have len: "length fourClicks = 20000" by (simp add: fourClicks_def)
  have a: "\<forall>j<42. int (0 + j * 441) < int (length fourClicks) - int 1764"
    unfolding len by simp
  have b: "\<not> int (0 + 42 * 441) < int (length fourClicks) - int 1764"
    unfolding len by simp
  have "map (\<lambda>j. windowEnergy fourClicks 1764 (0 + j * 441)) [0..<42] = fourClicksEnergies"
    unfolding upt_42 by (simp add: windowEnergy_fourClicks fourClicksEnergies_def)
  with energyLoop_hops [OF a b, of "[]"] show ?thesis by simp
qed


lemma fourClicks_threshold: "calculateThreshold fourClicksEnergies = Some 0"
proof -
  have "sort fourClicksEnergies ! 21 = 0" by (simp add: fourClicksEnergies_def)
  moreover have "length fourClicksEnergies = 42" "fourClicksEnergies \<noteq> []"
    by (simp_all add: fourClicksEnergies_def)
  ultimately show ?thesis by (simp add: calculateThreshold_def Let_def)
qed

lemma fourClicks_peaks:
  "peakLoop fourClicksEnergies (Some 0) 441 15434 [2..<40] (- 15434, []) =
     (17199, [1764, 17199])"
  by (simp add: upt_rec fourClicksEnergies_def exceeds_def Let_def)

lemma fourClicks_bpm: "calculateBPM [1764, 17199] 44100 = Inr (1200 / 7)"
  by (simp add: calculateBPM_def beatIntervals_def Let_def upt_rec)

lemma fourClicks_confidence: "calculateConfidence [1764, 17199] = Inr (3 / 10)"
  by (simp add: calculateConfidence_def)

lemma round_171: "js_round (1200 / 7) = 171"
  by (simp add: js_round_def)

lemma sizes_44100:
  "nat \<lfloor>mulDouble 44100 (roundToDouble 0.04)\<rfloor> = 1764"
  "\<lfloor>mulDouble 44100 (roundToDouble 0.35)\<rfloor> = 15434"
  "\<lfloor>0.35 * (44100::real)\<rfloor> = 15435"
  by (simp_all add: double_eval)

lemma findBeats_fourClicks: "findBeats fourClicks 44100 = Some fourClicksInfo"
proof -
  have h: "(1764::nat) div 4 = 441" by simp
  have l: "length fourClicksEnergies - 2 = 40" by (simp add: fourClicksEnergies_def)
  show ?thesis
    unfolding findBeats_def fourClicksInfo_def
    by (simp only: sizes_44100 h Let_def fourClicks_energies option.case fourClicks_threshold l
          fourClicks_peaks prod.case fourClicks_bpm fourClicks_confidence sum.case round_171)
       simp
qed

text \<open>
  The minimum interval is the floor of a product of doubles; it is at most 1 below the
  floor of the exact product, for the sample rates up to \<open>2 ^ 50\<close>.
\<close>

lemma minBeatInterval_bound:
  assumes "0 < rate" "rate \<le> 2 ^ 50"
  shows "\<lfloor>0.35 * rate\<rfloor> - 1 \<le> \<lfloor>mulDouble rate (roundToDouble 0.35)\<rfloor>"
proof -
  define x where "x = rate * roundToDouble 0.35"
  have lo: "0.35 * rate - 1 / 16 \<le> x" and hi: "x \<le> 2 ^ 49" and nn: "0 \<le> x"
    using assms by (simp_all add: x_def double_035)
  then have "\<bar>x\<bar> \<le> 2 powi 49" by simp
  from roundToDouble_error [OF this] have "\<bar>roundToDouble x - x\<bar> \<le> 2 powi (- 4)" by simp
  also have "(2::real) powi (- 4) = 1 / 16"
    by (simp add: power_int_def power_divide)
  finally have "x - 1 / 16 \<le> roundToDouble x" by linarith
  with lo have "0.35 * rate - 1 \<le> mulDouble rate (roundToDouble 0.35)"
    unfolding mulDouble_def x_def by linarith
  then have "\<lfloor>0.35 * rate - 1\<rfloor> \<le> \<lfloor>mulDouble rate (roundToDouble 0.35)\<rfloor>"
    by (rule floor_mono)
  then show ?thesis by simp
qed


text \<open>
  Claim C8, as stated, fails at 44100 Hz, where \<open>floor (0.35 * sampleRate)\<close> is 15435 and
  the product of the doubles 44100 and 0.35 is just below 15435: for the four clicks
  \<open>findBeats\<close> returns the beats 1764 and 17199, which differ by 15435 and not by more.
\<close>

theorem findBeats_gap_not_above_floor:
  "findBeats fourClicks 44100 = Some fourClicksInfo \<and>
   beats fourClicksInfo = [1764, 17199] \<and>
   \<not> int (beats fourClicksInfo ! 1) - int (beats fourClicksInfo ! 0) > \<lfloor>0.35 * (44100::real)\<rfloor>"
  by (simp add: findBeats_fourClicks) (simp add: fourClicksInfo_def)

text \<open>
  Claim C8, amended. The beats of every BeatInfo that \<open>findBeats\<close> returns at a positive
  sample rate are strictly increasing sample indices, and every two consecutive beats
  differ by more than the minimum interval the detector computes,
  \<open>Math.floor (sampleRate * 0.35)\<close> in double arithmetic, hence by at least
  \<open>floor (0.35 * sampleRate)\<close> samples (for the sample rates up to \<open>2 ^ 50\<close>). It does
  return a BeatInfo for every channel at every sample rate from 100 Hz on.
\<close>

theorem findBeats_beats_spaced:
  "(\<forall>info. findBeats channelData rate = Some info \<longrightarrow> 0 < rate \<longrightarrow>
      sorted_wrt (<) (beats info) \<and>
      (\<forall>k. Suc k < length (beats info) \<longrightarrow>
         int (beats info ! Suc k) - int (beats info ! k) >
           \<lfloor>mulDouble rate (roundToDouble 0.35)\<rfloor> \<and>
         (rate \<le> 2 ^ 50 \<longrightarrow>
            int (beats info ! Suc k) - int (beats info ! k) \<ge> \<lfloor>0.35 * rate\<rfloor>))) \<and>
   (100 \<le> rate \<longrightarrow> (\<exists>info. findBeats channelData rate = Some info))"
proof (intro conjI allI impI)
  fix info
  assume s: "findBeats channelData rate = Some info" and r: "0 < rate"
  let ?m = "\<lfloor>mulDouble rate (roundToDouble 0.35)\<rfloor>"
  have "0 \<le> roundToDouble 0.35" by (simp add: double_035)
  with r have "0 \<le> mulDouble rate (roundToDouble 0.35)"
    by (intro mulDouble_nonneg) simp_all
  then have m: "0 \<le> ?m" by simp
  note g = findBeats_gaps [OF s]
  have "successively (<) (beats info)"
    by (rule successively_mono [OF g]) (use m in linarith)
  then show "sorted_wrt (<) (beats info)"
    by (simp add: successively_conv_sorted_wrt)
  fix k assume "Suc k < length (beats info)"
  from successively_nth [OF g this]
  show gap: "int (beats info ! Suc k) - int (beats info ! k) > ?m" .
  assume "rate \<le> 2 ^ 50"
  from minBeatInterval_bound [OF r this] gap
  show "int (beats info ! Suc k) - int (beats info ! k) \<ge> \<lfloor>0.35 * rate\<rfloor>"
    by linarith
next
  assume r: "100 \<le> rate"
  from findBeats_total [OF hopSize_positive [OF r]] r
  show "\<exists>info. findBeats channelData rate = Some info" by simp
qed

theorem findBeats_beats_spaced_witness:
  "findBeats fourClicks 44100 = Some fourClicksInfo \<and> (0::real) < 44100 \<and>
   (44100::real) \<le> 2 ^ 50 \<and>
   beats fourClicksInfo = [1764, 17199] \<and>
   \<lfloor>mulDouble 44100 (roundToDouble 0.35)\<rfloor> = 15434 \<and> \<lfloor>0.35 * (44100::real)\<rfloor> = 15435 \<and>
   sorted_wrt (<) (beats fourClicksInfo) \<and>
   Suc 0 < length (beats fourClicksInfo) \<and>
   int (beats fourClicksInfo ! Suc 0) - int (beats fourClicksInfo ! 0) >
     \<lfloor>mulDouble 44100 (roundToDouble 0.35)\<rfloor> \<and>
   int (beats fourClicksInfo ! Suc 0) - int (beats fourClicksInfo ! 0) \<ge>
     \<lfloor>0.35 * (44100::real)\<rfloor>"
proof -
  note s = findBeats_fourClicks
  have r: "(0::real) < 44100" "(44100::real) \<le> 2 ^ 50" by simp_all
  have l: "Suc 0 < length (beats fourClicksInfo)" by (simp add: fourClicksInfo_def)
  from findBeats_beats_spaced [of fourClicks 44100] s r l
  have "sorted_wrt (<) (beats fourClicksInfo)"
    "int (beats fourClicksInfo ! Suc 0) - int (beats fourClicksInfo ! 0) >
       \<lfloor>mulDouble 44100 (roundToDouble 0.35)\<rfloor>"
    "int (beats fourClicksInfo ! Suc 0) - int (beats fourClicksInfo ! 0) \<ge>
       \<lfloor>0.35 * (44100::real)\<rfloor>"
    by blast+
  moreover have "beats fourClicksInfo = [1764, 17199]"
    by (simp add: fourClicksInfo_def)
  moreover note sizes_44100(2,3)
  ultimately show ?thesis using s r l by blast
qed

section \<open>Mix-point selector: the points lie in their windows\<close>

lemma candidateLoop_window:
  assumes "candidateLoop buffer startPct endPct bs acc = Inr candidates"
    and "\<forall>p \<in> set acc. duration buffer * startPct \<le> time p \<and> time p \<le> duration buffer * endPct"
  shows "\<forall>p \<in> set candidates. duration buffer * startPct \<le> time p \<and> time p \<le> duration buffer * endPct"
  using assms
proof (induction bs arbitrary: acc)
  case Nil
  then show ?case by simp
next
  case (Cons beat rest)
  let ?t = "real beat / sampleRate buffer"
  show ?case
  proof (cases "?t \<ge> duration buffer * startPct \<and> ?t \<le> duration buffer * endPct")
    case True
    with Cons.prems(1) obtain energy' positionScore where
      run: "candidateLoop buffer startPct endPct rest
              (acc @ [\<lparr> time = ?t, energy = energy', score = energy' * positionScore \<rparr>]) = Inr candidates"
      by (auto simp: Let_def split: sum.splits)
    show ?thesis
      by (rule Cons.IH [OF run]) (use True Cons.prems(2) in auto)
  next
    case False
    with Cons.prems(1) have "candidateLoop buffer startPct endPct rest acc = Inr candidates"
      by (auto simp: Let_def)
    from Cons.IH [OF this Cons.prems(2)] show ?thesis .
  qed
qed

lemma findCandidates_window:
  assumes "findCandidates beatInfo buffer startPct endPct = Inr candidates"
  shows "\<forall>p \<in> set candidates. duration buffer * startPct \<le> time p \<and> time p \<le> duration buffer * endPct"
proof -
  from assms obtain found where
    f: "candidateLoop buffer startPct endPct (beats beatInfo) [] = Inr found"
    and c: "candidates = take 5 (sort_key (\<lambda>c. - score c) found)"
    by (auto simp: findCandidates_def split: sum.splits)
  from candidateLoop_window [OF f]
  have "\<forall>p \<in> set found. duration buffer * startPct \<le> time p \<and> time p \<le> duration buffer * endPct"
    by simp
  moreover have "set candidates \<subseteq> set found"
    unfolding c using set_take_subset [of 5 "sort_key (\<lambda>c. - score c) found"] by simp
  ultimately show ?thesis by blast
qed

lemma innerPairLoop_points:
  assumes "innerPairLoop p1 c2 (s, m) = (s', m')"
  shows "(m' = m) \<or> (point1 m' = p1 \<and> point2 m' \<in> set c2)"
  using assms
proof (induction c2 arbitrary: s m)
  case Nil
  then show ?case by simp
next
  case (Cons p2 rest)
  show ?case
  proof (cases "(1 - \<bar>energy p1 - energy p2\<bar>) * score p1 * score p2 > s")
    case True
    with Cons.prems have "innerPairLoop p1 rest
        ((1 - \<bar>energy p1 - energy p2\<bar>) * score p1 * score p2, \<lparr> point1 = p1, point2 = p2 \<rparr>) = (s', m')"
      by (simp add: Let_def)
    from Cons.IH [OF this] show ?thesis by auto
  next
    case False
    with Cons.prems have "innerPairLoop p1 rest (s, m) = (s', m')" by (simp add: Let_def)
    from Cons.IH [OF this] show ?thesis by auto
  qed
qed

lemma pairLoop_points:
  assumes "pairLoop c1 c2 (s, m) = (s', m')"
  shows "(m' = m) \<or> (point1 m' \<in> set c1 \<and> point2 m' \<in> set c2)"
  using assms
proof (induction c1 arbitrary: s m)
  case Nil
  then show ?case by simp
next
  case (Cons p1 rest)
  obtain s1 m1 where i: "innerPairLoop p1 c2 (s, m) = (s1, m1)"
    by (cases "innerPairLoop p1 c2 (s, m)") blast
  with Cons.prems have "pairLoop rest c2 (s1, m1) = (s', m')" by simp
  from Cons.IH [OF this] innerPairLoop_points [OF i] show ?case by auto
qed

lemma pairLoop_empty: "pairLoop c1 [] state = state"
  by (induction c1) simp_all

lemma findMixPoints_points:
  assumes "findMixPoints beatInfo1 beatInfo2 buffer1 buffer2 = Inr match"
  shows "\<exists>candidates1 candidates2.
           findCandidates beatInfo1 buffer1 0.6 0.85 = Inr candidates1 \<and>
           findCandidates beatInfo2 buffer2 0.15 0.5 = Inr candidates2 \<and>
           (if candidates1 = [] then point1 match = defaultPoint buffer1 0.7
            else point1 match \<in> set candidates1) \<and>
           (if candidates2 = [] then point2 match = defaultPoint buffer2 0.3
            else point2 match \<in> set candidates2)"
proof -
  from assms obtain candidates1 candidates2 where
    c1: "findCandidates beatInfo1 buffer1 0.6 0.85 = Inr candidates1"
    and c2: "findCandidates beatInfo2 buffer2 0.15 0.5 = Inr candidates2"
    and m: "match = snd (pairLoop candidates1 candidates2
              (0, \<lparr> point1 = (case candidates1 of [] \<Rightarrow> defaultPoint buffer1 0.7 | c # cs \<Rightarrow> c),
                    point2 = (case candidates2 of [] \<Rightarrow> defaultPoint buffer2 0.3 | c # cs \<Rightarrow> c) \<rparr>))"
    by (auto simp: findMixPoints_def Let_def split: sum.splits)
  let ?init = "\<lparr> point1 = (case candidates1 of [] \<Rightarrow> defaultPoint buffer1 0.7 | c # cs \<Rightarrow> c),
                  point2 = (case candidates2 of [] \<Rightarrow> defaultPoint buffer2 0.3 | c # cs \<Rightarrow> c) \<rparr>"
  obtain s' where p: "pairLoop candidates1 candidates2 (0, ?init) = (s', match)"
    using m by (cases "pairLoop candidates1 candidates2 (0, ?init)") simp
  from pairLoop_points [OF p]
  have alt: "match = ?init \<or> (point1 match \<in> set candidates1 \<and> point2 match \<in> set candidates2)" .
  have 1: "if candidates1 = [] then point1 match = defaultPoint buffer1 0.7
            else point1 match \<in> set candidates1"
    using alt by (cases candidates1) auto
  have 2: "if candidates2 = [] then point2 match = defaultPoint buffer2 0.3
            else point2 match \<in> set candidates2"
    using alt by (cases candidates2) auto
  from c1 c2 1 2 show ?thesis by blast
qed


lemma not_isl_Inr: "\<not> isl x \<Longrightarrow> \<exists>v. x = Inr v"
  by (cases x) auto

lemma calculateEnergy_finite:
  assumes "1 \<le> numberOfChannels buffer" "10 \<le> sampleRate buffer" "0 \<le> t"
  shows "\<exists>v. calculateEnergy buffer t = Inr v"
proof -
  define windowSize where "windowSize = \<lfloor>sampleRate buffer * 0.1\<rfloor>"
  define startSample where "startSample = \<lfloor>t * sampleRate buffer\<rfloor>"
  from assms(2) have "1 \<le> sampleRate buffer * 0.1" by simp
  then have w: "1 \<le> windowSize" unfolding windowSize_def by (simp add: le_floor_iff)
  from assms(2,3) have s: "0 \<le> startSample" unfolding startSample_def by simp
  from assms(1) obtain channelData where c: "getChannelData buffer 0 = Inr channelData"
    by (auto simp: getChannelData_def)
  have "\<not> isl (calculateEnergy buffer t)"
    unfolding calculateEnergy_def Let_def windowSize_def [symmetric] startSample_def [symmetric]
    using w s by (simp add: c)
  then show ?thesis by (rule not_isl_Inr)
qed

lemma getPositionScore_finite:
  assumes "d \<noteq> 0" "endPct \<noteq> startPct"
  shows "\<exists>v. getPositionScore t d startPct endPct = Inr v"
  using assms by (simp add: getPositionScore_def Let_def)

lemma candidateLoop_total:
  assumes "1 \<le> numberOfChannels buffer" "10 \<le> sampleRate buffer" "1 \<le> length_buf buffer"
    and "endPct \<noteq> startPct"
  shows "\<exists>candidates. candidateLoop buffer startPct endPct bs acc = Inr candidates"
proof (induction bs arbitrary: acc)
  case Nil
  then show ?case by simp
next
  case (Cons beat rest)
  let ?t = "real beat / sampleRate buffer"
  from assms(2) have t: "0 \<le> ?t" by simp
  from assms(2,3) have d: "duration buffer \<noteq> 0" by (simp add: duration_def)
  from calculateEnergy_finite [OF assms(1,2) t] obtain e where
    e: "calculateEnergy buffer ?t = Inr e" by blast
  from getPositionScore_finite [OF d assms(4)] obtain q where
    q: "getPositionScore ?t (duration buffer) startPct endPct = Inr q" by blast
  show ?case
  proof (cases "?t \<ge> duration buffer * startPct \<and> ?t \<le> duration buffer * endPct")
    case True
    from Cons.IH [of "acc @ [\<lparr> time = ?t, energy = e, score = e * q \<rparr>]"] True e q
    show ?thesis by (simp add: Let_def)
  next
    case False
    from Cons.IH [of acc] False show ?thesis by (auto simp: Let_def)
  qed
qed

lemma findCandidates_total:
  assumes "1 \<le> numberOfChannels buffer" "10 \<le> sampleRate buffer" "1 \<le> length_buf buffer"
    and "endPct \<noteq> startPct"
  shows "\<exists>candidates. findCandidates beatInfo buffer startPct endPct = Inr candidates"
proof -
  from candidateLoop_total [OF assms] obtain found where
    "candidateLoop buffer startPct endPct (beats beatInfo) [] = Inr found" by blast
  then show ?thesis by (simp add: findCandidates_def)
qed

lemma findMixPoints_total:
  assumes "1 \<le> numberOfChannels buffer1" "10 \<le> sampleRate buffer1" "1 \<le> length_buf buffer1"
    and "1 \<le> numberOfChannels buffer2" "10 \<le> sampleRate buffer2" "1 \<le> length_buf buffer2"
  shows "\<exists>match. findMixPoints beatInfo1 beatInfo2 buffer1 buffer2 = Inr match"
proof -
  have "(0.85::real) \<noteq> 0.6" "(0.5::real) \<noteq> 0.15" by simp_all
  from findCandidates_total [OF assms(1-3) this(1)] findCandidates_total [OF assms(4-6) this(2)]
  obtain c1 c2 where "findCandidates beatInfo1 buffer1 0.6 0.85 = Inr c1"
    "findCandidates beatInfo2 buffer2 0.15 0.5 = Inr c2"
    by blast
  then show ?thesis by (simp add: findMixPoints_def Let_def)
qed

lemma default_in_window:
  assumes "0 < sampleRate buffer"
  shows "duration buffer * 0.6 \<le> time (defaultPoint buffer 0.7)"
    "time (defaultPoint buffer 0.7) \<le> duration buffer * 0.85"
    "duration buffer * 0.15 \<le> time (defaultPoint buffer 0.3)"
    "time (defaultPoint buffer 0.3) \<le> duration buffer * 0.5"
proof -
  from assms have "0 \<le> duration buffer" by (simp add: duration_def)
  then show "duration buffer * 0.6 \<le> time (defaultPoint buffer 0.7)"
    "time (defaultPoint buffer 0.7) \<le> duration buffer * 0.85"
    "duration buffer * 0.15 \<le> time (defaultPoint buffer 0.3)"
    "time (defaultPoint buffer 0.3) \<le> duration buffer * 0.5"
    by (simp_all add: defaultPoint_def)
qed

subsection \<open>The selector on a steady track\<close>

lemma steady_data: "getChannelData steady 0 = Inr (replicate 100 1)"
  by (simp add: getChannelData_def steady_def map_replicate_const)

lemma steady_energy:
  assumes "0 \<le> k" "k < 99"
  shows "calculateEnergy steady (real_of_int k / 10) = Inr 1"
proof -
  have f: "\<lfloor>real_of_int k / 10 * 10\<rfloor> = k" "\<lfloor>(10::real) * 0.1\<rfloor> = 1" by simp_all
  have u: "[nat k..<nat (k + 1)] = [nat k]" using assms by (simp add: nat_add_distrib)
  have r: "sampleRate steady = 10" by (simp add: steady_def)
  show ?thesis
    unfolding calculateEnergy_def Let_def r f steady_data
    using assms by (simp add: u)
qed

lemma steady_late_candidates: "findCandidates lateBeats steady 0.6 0.85 =
  Inr [\<lparr> time = 36 / 5, energy = 1, score = 49 / 50 \<rparr>,
       \<lparr> time = 7, energy = 1, score = 9 / 10 \<rparr>,
       \<lparr> time = 13 / 2, energy = 1, score = 7 / 10 \<rparr>]"
proof -
  have e: "calculateEnergy steady (13 / 2) = Inr 1" "calculateEnergy steady 7 = Inr 1"
    "calculateEnergy steady (36 / 5) = Inr 1"
    using steady_energy [of 65] steady_energy [of 70] steady_energy [of 72] by simp_all
  have r: "sampleRate steady = 10" "duration steady = 10" by (simp_all add: steady_def duration_def)
  show ?thesis
    unfolding findCandidates_def lateBeats_def
    by (simp add: r e getPositionScore_def Let_def)
qed

lemma steady_early_candidates: "findCandidates earlyBeats steady 0.15 0.5 =
  Inr [\<lparr> time = 3, energy = 1, score = 13 / 14 \<rparr>,
       \<lparr> time = 2, energy = 1, score = 9 / 14 \<rparr>]"
proof -
  have e: "calculateEnergy steady 2 = Inr 1" "calculateEnergy steady 3 = Inr 1"
    using steady_energy [of 20] steady_energy [of 30] by simp_all
  have r: "sampleRate steady = 10" "duration steady = 10" by (simp_all add: steady_def duration_def)
  show ?thesis
    unfolding findCandidates_def earlyBeats_def
    by (simp add: r e getPositionScore_def Let_def)
qed

lemma steady_no_candidates: "findCandidates noBeats steady startPct endPct = Inr []"
  by (simp add: findCandidates_def noBeats_def)

lemma findMixPoints_steady:
  "findMixPoints lateBeats earlyBeats steady steady =
     Inr \<lparr> point1 = \<lparr> time = 36 / 5, energy = 1, score = 49 / 50 \<rparr>,
           point2 = \<lparr> time = 3, energy = 1, score = 13 / 14 \<rparr> \<rparr>"
  unfolding findMixPoints_def steady_late_candidates steady_early_candidates
  by (simp add: Let_def)

lemma findMixPoints_steady_default:
  "findMixPoints noBeats noBeats steady steady =
     Inr \<lparr> point1 = \<lparr> time = 7, energy = 1 / 2, score = 1 / 2 \<rparr>,
           point2 = \<lparr> time = 3, energy = 1 / 2, score = 1 / 2 \<rparr> \<rparr>"
  unfolding findMixPoints_def steady_no_candidates
  by (simp add: Let_def defaultPoint_def duration_def steady_def)

text \<open>
  Claim C9. Whenever \<open>findMixPoints\<close> returns a pair for buffers of positive sample
  rate, the first point's time lies in [0.6, 0.85] of the first track's duration and the
  second point's in [0.15, 0.5] of the second track's; a track without candidates gets
  the default point, at 70% of the duration for the first track and 30% for the second,
  with energy and score 0.5. It does return a pair for all beat infos and all buffers
  with a channel, a sample and a sample rate of at least 10 Hz each.
\<close>

theorem findMixPoints_in_windows:
  "(\<forall>match. findMixPoints beatInfo1 beatInfo2 buffer1 buffer2 = Inr match \<longrightarrow>
      0 < sampleRate buffer1 \<longrightarrow> 0 < sampleRate buffer2 \<longrightarrow>
        0.6 * duration buffer1 \<le> time (point1 match) \<and>
        time (point1 match) \<le> 0.85 * duration buffer1 \<and>
        0.15 * duration buffer2 \<le> time (point2 match) \<and>
        time (point2 match) \<le> 0.5 * duration buffer2 \<and>
        (findCandidates beatInfo1 buffer1 0.6 0.85 = Inr [] \<longrightarrow>
           point1 match = \<lparr> time = duration buffer1 * 0.7, energy = 0.5, score = 0.5 \<rparr>) \<and>
        (findCandidates beatInfo2 buffer2 0.15 0.5 = Inr [] \<longrightarrow>
           point2 match = \<lparr> time = duration buffer2 * 0.3, energy = 0.5, score = 0.5 \<rparr>)) \<and>
   (1 \<le> numberOfChannels buffer1 \<and> 10 \<le> sampleRate buffer1 \<and> 1 \<le> length_buf buffer1 \<and>
    1 \<le> numberOfChannels buffer2 \<and> 10 \<le> sampleRate buffer2 \<and> 1 \<le> length_buf buffer2 \<longrightarrow>
      (\<exists>match. findMixPoints beatInfo1 beatInfo2 buffer1 buffer2 = Inr match))"
proof (intro conjI allI impI)
  fix match
  assume m: "findMixPoints beatInfo1 beatInfo2 buffer1 buffer2 = Inr match"
    and r1: "0 < sampleRate buffer1" and r2: "0 < sampleRate buffer2"
  from findMixPoints_points [OF m] obtain candidates1 candidates2 where
    c1: "findCandidates beatInfo1 buffer1 0.6 0.85 = Inr candidates1"
    and c2: "findCandidates beatInfo2 buffer2 0.15 0.5 = Inr candidates2"
    and p1: "if candidates1 = [] then point1 match = defaultPoint buffer1 0.7
             else point1 match \<in> set candidates1"
    and p2: "if candidates2 = [] then point2 match = defaultPoint buffer2 0.3
             else point2 match \<in> set candidates2"
    by blast
  have w1: "duration buffer1 * 0.6 \<le> time (point1 match) \<and>
            time (point1 match) \<le> duration buffer1 * 0.85"
    using p1 findCandidates_window [OF c1] default_in_window(1,2) [OF r1]
    by (cases "candidates1 = []") auto
  have w2: "duration buffer2 * 0.15 \<le> time (point2 match) \<and>
            time (point2 match) \<le> duration buffer2 * 0.5"
    using p2 findCandidates_window [OF c2] default_in_window(3,4) [OF r2]
    by (cases "candidates2 = []") auto
  from w1 show "0.6 * duration buffer1 \<le> time (point1 match)"
    "time (point1 match) \<le> 0.85 * duration buffer1"
    by (simp_all add: mult.commute)
  from w2 show "0.15 * duration buffer2 \<le> time (point2 match)"
    "time (point2 match) \<le> 0.5 * duration buffer2"
    by (simp_all add: mult.commute)
  {
    assume "findCandidates beatInfo1 buffer1 0.6 0.85 = Inr []"
    with c1 p1 show "point1 match = \<lparr> time = duration buffer1 * 0.7, energy = 0.5, score = 0.5 \<rparr>"
      by (simp add: defaultPoint_def)
  }
  {
    assume "findCandidates beatInfo2 buffer2 0.15 0.5 = Inr []"
    with c2 p2 show "point2 match = \<lparr> time = duration buffer2 * 0.3, energy = 0.5, score = 0.5 \<rparr>"
      by (simp add: defaultPoint_def)
  }
next
  assume "1 \<le> numberOfChannels buffer1 \<and> 10 \<le> sampleRate buffer1 \<and> 1 \<le> length_buf buffer1 \<and>
    1 \<le> numberOfChannels buffer2 \<and> 10 \<le> sampleRate buffer2 \<and> 1 \<le> length_buf buffer2"
  then show "\<exists>match. findMixPoints beatInfo1 beatInfo2 buffer1 buffer2 = Inr match"
    using findMixPoints_total by blast
qed

theorem findMixPoints_in_windows_witness:
  "findMixPoints lateBeats earlyBeats steady steady =
     Inr \<lparr> point1 = \<lparr> time = 36 / 5, energy = 1, score = 49 / 50 \<rparr>,
           point2 = \<lparr> time = 3, energy = 1, score = 13 / 14 \<rparr> \<rparr> \<and>
   0 < sampleRate steady \<and> duration steady = 10 \<and>
   0.6 * duration steady \<le> 36 / 5 \<and> 36 / 5 \<le> 0.85 * duration steady \<and>
   0.15 * duration steady \<le> 3 \<and> 3 \<le> 0.5 * duration steady \<and>
   findCandidates noBeats steady 0.6 0.85 = Inr [] \<and>
   findCandidates noBeats steady 0.15 0.5 = Inr [] \<and>
   (\<exists>match. findMixPoints noBeats noBeats steady steady = Inr match \<and>
      point1 match = \<lparr> time = 7, energy = 0.5, score = 0.5 \<rparr> \<and>
      point2 match = \<lparr> time = 3, energy = 0.5, score = 0.5 \<rparr>)"
proof -
  let ?match = "\<lparr> point1 = \<lparr> time = 36 / 5, energy = 1, score = 49 / 50 \<rparr>,
                  point2 = \<lparr> time = 3, energy = 1, score = 13 / 14 \<rparr> \<rparr>"
  have r: "0 < sampleRate steady" and d: "duration steady = 10"
    by (simp_all add: steady_def duration_def)
  have v: "1 \<le> numberOfChannels steady \<and> 10 \<le> sampleRate steady \<and> 1 \<le> length_buf steady"
    by (simp add: steady_def)
  note m = findMixPoints_steady
  from findMixPoints_in_windows [of lateBeats earlyBeats steady steady] m r
  have "0.6 * duration steady \<le> time (point1 ?match)"
    "time (point1 ?match) \<le> 0.85 * duration steady"
    "0.15 * duration steady \<le> time (point2 ?match)"
    "time (point2 ?match) \<le> 0.5 * duration steady"
    by blast+
  then have w: "0.6 * duration steady \<le> 36 / 5" "36 / 5 \<le> 0.85 * duration steady"
    "0.15 * duration steady \<le> 3" "3 \<le> 0.5 * duration steady"
    by simp_all
  note n = steady_no_candidates [of "0.6" "0.85"] steady_no_candidates [of "0.15" "0.5"]
  from findMixPoints_in_windows [of noBeats noBeats steady steady] v
  obtain match where f: "findMixPoints noBeats noBeats steady steady = Inr match" by blast
  from findMixPoints_in_windows [of noBeats noBeats steady steady] f r n
  have "point1 match = \<lparr> time = duration steady * 0.7, energy = 0.5, score = 0.5 \<rparr>"
    "point2 match = \<lparr> time = duration steady * 0.3, energy = 0.5, score = 0.5 \<rparr>"
    by blast+
  then have "point1 match = \<lparr> time = 7, energy = 0.5, score = 0.5 \<rparr>"
    "point2 match = \<lparr> time = 3, energy = 0.5, score = 0.5 \<rparr>"
    by (simp_all add: d)
  with f have "\<exists>match. findMixPoints noBeats noBeats steady steady = Inr match \<and>
      point1 match = \<lparr> time = 7, energy = 0.5, score = 0.5 \<rparr> \<and>
      point2 match = \<lparr> time = 3, energy = 0.5, score = 0.5 \<rparr>"
    by blast
  with m r d w n show ?thesis by blast
qed

section \<open>Container encoder: size, header and samples\<close>

text \<open>Two bytes written little-endian give the 16-bit word back, and four the 32-bit word.\<close>

lemma word16_bytes:
  "(ucast (ucast w :: 8 word) OR push_bit 8 (ucast (ucast (drop_bit 8 w) :: 8 word))) = (w :: 16 word)"
  by (rule bit_word_eqI) (auto simp: bit_simps)

lemma word32_bytes:
  "(ucast (ucast w :: 8 word) OR push_bit 8 (ucast (ucast (drop_bit 8 w) :: 8 word))
     OR push_bit 16 (ucast (ucast (drop_bit 16 w) :: 8 word))
     OR push_bit 24 (ucast (ucast (drop_bit 24 w) :: 8 word))) = (w :: 32 word)"
proof (rule bit_word_eqI)
  fix n assume "n < LENGTH(32)"
  then show "bit ((ucast (ucast w :: 8 word) OR push_bit 8 (ucast (ucast (drop_bit 8 w) :: 8 word))
       OR push_bit 16 (ucast (ucast (drop_bit 16 w) :: 8 word))
       OR push_bit 24 (ucast (ucast (drop_bit 24 w) :: 8 word))) :: 32 word) n = bit w n"
    by (cases "n < 8"; cases "n < 16"; cases "n < 24") (auto simp: bit_simps)
qed

text \<open>An integer in the 16-bit signed range is stored and read back unchanged.\<close>

lemma sint16_of_int:
  "- 32768 \<le> t \<Longrightarrow> t < 32768 \<Longrightarrow> sint (word_of_int t :: 16 word) = t"
  by (simp add: sint_sbintrunc' signed_take_bit_int_eq_self)

text \<open>The clamped, scaled and truncated sample is in that range.\<close>

lemma truncatedPcm_range: "- 32767 \<le> truncatedPcm s \<and> truncatedPcm s \<le> 32767"
proof -
  define x where "x = max (- 1) (min 1 s) * 32767"
  have "- 32767 \<le> x" "x \<le> 32767" by (simp_all add: x_def max_def min_def)
  then have "- 32767 \<le> js_trunc x \<and> js_trunc x \<le> 32767"
    by (auto simp: js_trunc_def le_floor_iff ceiling_le_iff floor_le_iff le_ceiling_iff)
  then show ?thesis by (simp add: truncatedPcm_def x_def)
qed

text \<open>A read depends on the two bytes at its offset only; a write changes these two only.\<close>

lemma getInt16_cong:
  assumes "length v' = length v" "v' ! off = v ! off" "v' ! (off + 1) = v ! (off + 1)"
  shows "getInt16 v' off = getInt16 v off"
  using assms by (simp add: getInt16_def)

lemma getInt16_setInt16:
  assumes "offset + 2 \<le> length view"
  shows "\<exists>view'. setInt16 offset (Some x) view = Inr view' \<and> length view' = length view \<and>
           (\<forall>k. k \<noteq> offset \<and> k \<noteq> offset + 1 \<longrightarrow> view' ! k = view ! k) \<and>
           getInt16 view' offset = Inr (sint (word_of_int (js_trunc x) :: 16 word))"
  using assms by (simp add: setInt16_def getInt16_def Let_def word16_bytes)

text \<open>The inner loop writes one frame: one 16-bit integer per channel, and nothing else.\<close>

lemma channelLoop_spec:
  assumes "\<forall>c \<in> set chs. c < numberOfChannels buffer" "i < length_buf buffer"
    and "offset + 2 * length chs \<le> length view"
  shows "\<exists>view'. channelLoop buffer i chs (view, offset) = Inr (view', offset + 2 * length chs) \<and>
           length view' = length view \<and>
           (\<forall>k. k < offset \<longrightarrow> view' ! k = view ! k) \<and>
           (\<forall>j < length chs. getInt16 view' (offset + 2 * j) =
              Inr (truncatedPcm (channelSamples buffer (chs ! j) i)))"
  using assms
proof (induction chs arbitrary: view offset)
  case Nil
  then show ?case by simp
next
  case (Cons channel rest)
  from Cons.prems(1) have c: "channel < numberOfChannels buffer" by simp
  let ?data = "map (channelSamples buffer channel) [0..<length_buf buffer]"
  from c have data: "getChannelData buffer (int channel) = Inr ?data"
    by (simp add: getChannelData_def)
  let ?x = "max (- 1) (min 1 (channelSamples buffer channel i)) * 32767"
  from Cons.prems(3) have r: "offset + 2 \<le> length view" by simp
  from getInt16_setInt16 [OF r, of ?x] obtain view1 where
    s: "setInt16 offset (Some ?x) view = Inr view1" and l1: "length view1 = length view"
    and o1: "\<forall>k. k \<noteq> offset \<and> k \<noteq> offset + 1 \<longrightarrow> view1 ! k = view ! k"
    and g1: "getInt16 view1 offset = Inr (sint (word_of_int (js_trunc ?x) :: 16 word))"
    by blast
  from Cons.prems(1) have rest: "\<forall>c \<in> set rest. c < numberOfChannels buffer" by simp
  from Cons.prems(3) l1 have room: "(offset + 2) + 2 * length rest \<le> length view1" by simp
  from Cons.IH [OF rest Cons.prems(2) room] obtain view' where
    run: "channelLoop buffer i rest (view1, offset + 2) = Inr (view', offset + 2 + 2 * length rest)"
    and l2: "length view' = length view1"
    and o2: "\<forall>k. k < offset + 2 \<longrightarrow> view' ! k = view1 ! k"
    and g2: "\<forall>j < length rest. getInt16 view' (offset + 2 + 2 * j) =
               Inr (truncatedPcm (channelSamples buffer (rest ! j) i))"
    by blast
  have step: "channelLoop buffer i (channel # rest) (view, offset) =
                Inr (view', offset + 2 * length (channel # rest))"
    using data s run Cons.prems(2) by (simp add: Let_def)
  have len: "length view' = length view" using l1 l2 by simp
  have keep: "\<forall>k. k < offset \<longrightarrow> view' ! k = view ! k" using o1 o2 by simp
  have first: "getInt16 view' offset = Inr (truncatedPcm (channelSamples buffer channel i))"
  proof -
    have "getInt16 view' offset = getInt16 view1 offset"
      by (rule getInt16_cong) (use l2 o2 in simp_all)
    also have "\<dots> = Inr (sint (word_of_int (js_trunc ?x) :: 16 word))"
      by (rule g1)
    also have "sint (word_of_int (js_trunc ?x) :: 16 word) = js_trunc ?x"
      using truncatedPcm_range [of "channelSamples buffer channel i"]
      by (intro sint16_of_int) (simp_all add: truncatedPcm_def)
    finally show ?thesis by (simp add: truncatedPcm_def)
  qed
  have all: "\<forall>j < length (channel # rest). getInt16 view' (offset + 2 * j) =
      Inr (truncatedPcm (channelSamples buffer ((channel # rest) ! j) i))"
  proof (intro allI impI)
    fix j assume j: "j < length (channel # rest)"
    show "getInt16 view' (offset + 2 * j) =
      Inr (truncatedPcm (channelSamples buffer ((channel # rest) ! j) i))"
    proof (cases j)
      case 0
      with first show ?thesis by simp
    next
      case (Suc j')
      with j g2 have "getInt16 view' (offset + 2 + 2 * j') =
               Inr (truncatedPcm (channelSamples buffer (rest ! j') i))" by simp
      with Suc show ?thesis by (simp add: add.assoc)
    qed
  qed
  from step len keep all show ?case by blast
qed

text \<open>The outer loop writes the frames one after the other and leaves the bytes before them.\<close>

lemma frameLoop_spec:
  assumes "\<forall>c \<in> set chs. c < numberOfChannels buffer" "\<forall>i \<in> set is. i < length_buf buffer"
    and "offset + 2 * (length is * length chs) \<le> length view"
  shows "\<exists>view' offset'. frameLoop buffer chs is (view, offset) = Inr (view', offset') \<and>
           length view' = length view \<and>
           (\<forall>k. k < offset \<longrightarrow> view' ! k = view ! k) \<and>
           (\<forall>f < length is. \<forall>j < length chs.
              getInt16 view' (offset + 2 * (f * length chs + j)) =
                Inr (truncatedPcm (channelSamples buffer (chs ! j) (is ! f))))"
  using assms
proof (induction "is" arbitrary: view offset)
  case Nil
  then show ?case by simp
next
  case (Cons i rest)
  let ?C = "length chs"
  from Cons.prems(2) have i: "i < length_buf buffer" and rest: "\<forall>i \<in> set rest. i < length_buf buffer"
    by simp_all
  from Cons.prems(3) have room1: "offset + 2 * ?C \<le> length view" by simp
  from channelLoop_spec [OF Cons.prems(1) i room1] obtain view1 where
    c: "channelLoop buffer i chs (view, offset) = Inr (view1, offset + 2 * ?C)"
    and l1: "length view1 = length view"
    and o1: "\<forall>k. k < offset \<longrightarrow> view1 ! k = view ! k"
    and g1: "\<forall>j < ?C. getInt16 view1 (offset + 2 * j) =
               Inr (truncatedPcm (channelSamples buffer (chs ! j) i))"
    by blast
  from Cons.prems(3) l1 have room2: "(offset + 2 * ?C) + 2 * (length rest * ?C) \<le> length view1"
    by simp
  from Cons.IH [OF Cons.prems(1) rest room2] obtain view' offset' where
    run: "frameLoop buffer chs rest (view1, offset + 2 * ?C) = Inr (view', offset')"
    and l2: "length view' = length view1"
    and o2: "\<forall>k. k < offset + 2 * ?C \<longrightarrow> view' ! k = view1 ! k"
    and g2: "\<forall>f < length rest. \<forall>j < ?C.
               getInt16 view' (offset + 2 * ?C + 2 * (f * ?C + j)) =
                 Inr (truncatedPcm (channelSamples buffer (chs ! j) (rest ! f)))"
    by blast
  have step: "frameLoop buffer chs (i # rest) (view, offset) = Inr (view', offset')"
    using c run by (simp add: andThen_def)
  have len: "length view' = length view" using l1 l2 by simp
  have keep: "\<forall>k. k < offset \<longrightarrow> view' ! k = view ! k" using o1 o2 by simp
  have all: "\<forall>f < length (i # rest). \<forall>j < ?C.
      getInt16 view' (offset + 2 * (f * ?C + j)) =
        Inr (truncatedPcm (channelSamples buffer (chs ! j) ((i # rest) ! f)))"
  proof (intro allI impI)
    fix f j assume f: "f < length (i # rest)" and j: "j < ?C"
    show "getInt16 view' (offset + 2 * (f * ?C + j)) =
        Inr (truncatedPcm (channelSamples buffer (chs ! j) ((i # rest) ! f)))"
    proof (cases f)
      case 0
      from j have "offset + 2 * j < offset + 2 * ?C" "offset + 2 * j + 1 < offset + 2 * ?C"
        by simp_all
      with o2 have "view' ! (offset + 2 * j) = view1 ! (offset + 2 * j)"
        "view' ! (offset + 2 * j + 1) = view1 ! (offset + 2 * j + 1)"
        by simp_all
      with l2 have "getInt16 view' (offset + 2 * j) = getInt16 view1 (offset + 2 * j)"
        by (intro getInt16_cong) simp_all
      with g1 j 0 show ?thesis by simp
    next
      case (Suc f')
      with f g2 j have "getInt16 view' (offset + 2 * ?C + 2 * (f' * ?C + j)) =
                 Inr (truncatedPcm (channelSamples buffer (chs ! j) (rest ! f')))"
        by simp
      moreover have "offset + 2 * ?C + 2 * (f' * ?C + j) = offset + 2 * (f * ?C + j)"
        unfolding Suc by (simp add: algebra_simps)
      moreover have "(i # rest) ! f = rest ! f'" unfolding Suc by simp
      ultimately show ?thesis by (simp only:)
    qed
  qed
  from step len keep all show ?case by blast
qed

text \<open>The numbers written to the header fields are integers.\<close>

lemma js_trunc_of_int: "js_trunc (real_of_int z) = z"
  by (simp add: js_trunc_def)

lemma js_trunc_fields:
  "js_trunc (36 + real a * real b * 2) = 36 + int a * int b * 2"
  "js_trunc (real a * real b * 2) = int a * int b * 2"
  "js_trunc (real a * 2) = int a * 2"
  "js_trunc (real a) = int a"
  "js_trunc (numeral n) = numeral n"
  "js_trunc 1 = 1"
proof -
  have "36 + real a * real b * 2 = real_of_int (36 + int a * int b * 2)"
    "real a * real b * 2 = real_of_int (int a * int b * 2)"
    "real a * 2 = real_of_int (int a * 2)"
    "real a = real_of_int (int a)"
    by simp_all
  then show "js_trunc (36 + real a * real b * 2) = 36 + int a * int b * 2"
    "js_trunc (real a * real b * 2) = int a * int b * 2"
    "js_trunc (real a * 2) = int a * 2"
    "js_trunc (real a) = int a"
    by (simp_all only: js_trunc_of_int)
  show "js_trunc (numeral n) = numeral n" "js_trunc 1 = 1"
    by (simp_all add: js_trunc_def)
qed

text \<open>What the unsigned getters read back of them.\<close>

lemma unat_of_int32: "unat (word_of_int z :: 32 word) = nat (z mod 2 ^ 32)"
  by (simp add: unat_eq_nat_uint uint_word_of_int take_bit_eq_mod)

lemma unat_fields:
  "unat (36 + word_of_nat a * word_of_nat b * 2 :: 32 word) = (36 + a * b * 2) mod 2 ^ 32"
  "unat (word_of_nat a * word_of_nat b * 2 :: 32 word) = (a * b * 2) mod 2 ^ 32"
  "unat (word_of_nat a * 2 :: 16 word) = (a * 2) mod 2 ^ 16"
  "unat (word_of_nat a :: 16 word) = a mod 2 ^ 16"
proof -
  have e1: "(36 + word_of_nat a * word_of_nat b * 2 :: 32 word) = word_of_nat (36 + a * b * 2)"
    by simp
  have e2: "(word_of_nat a * word_of_nat b * 2 :: 32 word) = word_of_nat (a * b * 2)"
    by simp
  have e3: "(word_of_nat a * 2 :: 16 word) = word_of_nat (a * 2)"
    by simp
  have u32: "unat (word_of_nat n :: 32 word) = n mod 2 ^ 32" for n
    by (simp add: unat_of_nat)
  have u16: "unat (word_of_nat n :: 16 word) = n mod 2 ^ 16" for n
    by (simp add: unat_of_nat)
  show "unat (36 + word_of_nat a * word_of_nat b * 2 :: 32 word) = (36 + a * b * 2) mod 2 ^ 32"
    by (simp only: e1 u32)
  show "unat (word_of_nat a * word_of_nat b * 2 :: 32 word) = (a * b * 2) mod 2 ^ 32"
    by (simp only: e2 u32)
  show "unat (word_of_nat a * 2 :: 16 word) = (a * 2) mod 2 ^ 16"
    by (simp only: e3 u16)
  show "unat (word_of_nat a :: 16 word) = a mod 2 ^ 16"
    by (rule u16)
qed

text \<open>The thirteen header statements, on any view of at least 44 bytes.\<close>

lemma writeHeader_spec:
  assumes "44 \<le> length view0"
  shows "\<exists>H. writeHeader buffer view0 = Inr H \<and> length H = length view0 \<and>
     (\<forall>k. 44 \<le> k \<longrightarrow> H ! k = view0 ! k) \<and>
     map ((!) H) [0..<4] = map of_char ''RIFF'' \<and>
     getUint32 H 4 = Inr ((36 + length_buf buffer * numberOfChannels buffer * 2) mod 2 ^ 32) \<and>
     map ((!) H) [8..<16] = map of_char ''WAVEfmt '' \<and>
     getUint32 H 16 = Inr 16 \<and>
     getUint16 H 20 = Inr 1 \<and>
     getUint16 H 22 = Inr (numberOfChannels buffer mod 2 ^ 16) \<and>
     getUint32 H 24 = Inr (toUint32 (sampleRate buffer)) \<and>
     getUint32 H 28 = Inr (toUint32 (sampleRate buffer * real (numberOfChannels buffer) * 2)) \<and>
     getUint16 H 32 = Inr ((numberOfChannels buffer * 2) mod 2 ^ 16) \<and>
     getUint16 H 34 = Inr 16 \<and>
     map ((!) H) [36..<40] = map of_char ''data'' \<and>
     getUint32 H 40 = Inr ((length_buf buffer * numberOfChannels buffer * 2) mod 2 ^ 32)"
proof -
  from assms have "view0 \<noteq> []" by auto
  with assms show ?thesis
    by (simp add: writeHeader_def andThen_def setUint8_def setUint16_def setUint32_def
          getUint32_def getUint16_def Let_def word32_bytes word16_bytes js_trunc_fields
          toUint32_def upt_rec unat_of_int32 unat_fields)
qed

text \<open>The encoder: the header, then the samples, which leave the header as it was.\<close>

lemma audioBufferToWav_spec:
  fixes buffer :: AudioBuffer
  defines "N \<equiv> length_buf buffer" and "C \<equiv> numberOfChannels buffer"
  shows "\<exists>H bytes. writeHeader buffer (replicate (44 + N * C * 2) 0) = Inr H \<and>
           audioBufferToWav buffer = Inr bytes \<and>
           length bytes = 44 + N * C * 2 \<and> length H = 44 + N * C * 2 \<and>
           (\<forall>k. k < 44 \<longrightarrow> bytes ! k = H ! k) \<and>
           (\<forall>i < N. \<forall>c < C. getInt16 bytes (44 + (i * C + c) * 2) =
              Inr (truncatedPcm (channelSamples buffer c i)))"
proof -
  define n where "n = 44 + N * C * 2"
  have "44 \<le> length (replicate n (0 :: byte))"
    by (simp add: n_def)
  from writeHeader_spec [OF this, of buffer]
  obtain H where H: "writeHeader buffer (replicate n 0) = Inr H" and lenH: "length H = n"
    by auto
  have "\<forall>c \<in> set [0..<C]. c < numberOfChannels buffer"
    "\<forall>i \<in> set [0..<N]. i < length_buf buffer"
    "44 + 2 * (length [0..<N] * length [0..<C]) \<le> length H"
    by (simp_all add: N_def C_def lenH n_def)
  from frameLoop_spec [OF this]
  obtain bytes offset' where F: "frameLoop buffer [0..<C] [0..<N] (H, 44) = Inr (bytes, offset')"
    and len: "length bytes = length H"
    and keep: "\<forall>k. k < 44 \<longrightarrow> bytes ! k = H ! k"
    and samples: "\<forall>f < length [0..<N]. \<forall>j < length [0..<C].
        getInt16 bytes (44 + 2 * (f * length [0..<C] + j)) =
          Inr (truncatedPcm (channelSamples buffer ([0..<C] ! j) ([0..<N] ! f)))"
    by blast
  have "audioBufferToWav buffer = Inr bytes"
    unfolding audioBufferToWav_def Let_def N_def [symmetric] C_def [symmetric]
      n_def [symmetric]
    by (simp add: andThen_def H F)
  moreover have "\<forall>i < N. \<forall>c < C. getInt16 bytes (44 + (i * C + c) * 2) =
      Inr (truncatedPcm (channelSamples buffer c i))"
  proof (intro allI impI)
    fix i c
    assume "i < N" "c < C"
    with samples have "getInt16 bytes (44 + 2 * (i * length [0..<C] + c)) =
        Inr (truncatedPcm (channelSamples buffer ([0..<C] ! c) ([0..<N] ! i)))"
      by simp
    with \<open>i < N\<close> \<open>c < C\<close> show "getInt16 bytes (44 + (i * C + c) * 2) =
        Inr (truncatedPcm (channelSamples buffer c i))"
      by (simp add: mult.commute)
  qed
  moreover have "length bytes = 44 + N * C * 2" "length H = 44 + N * C * 2"
    using len lenH by (simp_all add: n_def)
  moreover have "writeHeader buffer (replicate (44 + N * C * 2) 0) = Inr H"
    using H by (simp add: n_def)
  ultimately show ?thesis
    using keep by blast
qed

text \<open>Reads inside the header see the header.\<close>

lemma map_nth_preserved:
  assumes "\<forall>k. k < 44 \<longrightarrow> bytes ! k = H ! k" "b \<le> 44"
  shows "map ((!) bytes) [a..<b] = map ((!) H) [a..<b]"
  using assms by auto

lemma getUint16_preserved:
  assumes "length bytes = length H" "\<forall>k. k < 44 \<longrightarrow> bytes ! k = H ! k" "off + 2 \<le> 44"
  shows "getUint16 bytes off = getUint16 H off"
  using assms by (simp add: getUint16_def)

lemma getUint32_preserved:
  assumes "length bytes = length H" "\<forall>k. k < 44 \<longrightarrow> bytes ! k = H ! k" "off + 4 \<le> 44"
  shows "getUint32 bytes off = getUint32 H off"
  using assms by (simp add: getUint32_def)

text \<open>The bytes the encoder returns: every header field and every sample.\<close>

lemma audioBufferToWav_bytes:
  fixes buffer :: AudioBuffer
  defines "N \<equiv> length_buf buffer" and "C \<equiv> numberOfChannels buffer"
    and "R \<equiv> sampleRate buffer"
  shows "\<exists>bytes. audioBufferToWav buffer = Inr bytes \<and>
     length bytes = 44 + N * C * 2 \<and>
     map ((!) bytes) [0..<4] = map of_char ''RIFF'' \<and>
     getUint32 bytes 4 = Inr ((36 + N * C * 2) mod 2 ^ 32) \<and>
     map ((!) bytes) [8..<16] = map of_char ''WAVEfmt '' \<and>
     getUint32 bytes 16 = Inr 16 \<and>
     getUint16 bytes 20 = Inr 1 \<and>
     getUint16 bytes 22 = Inr (C mod 2 ^ 16) \<and>
     getUint32 bytes 24 = Inr (toUint32 R) \<and>
     getUint32 bytes 28 = Inr (toUint32 (R * real C * 2)) \<and>
     getUint16 bytes 32 = Inr ((C * 2) mod 2 ^ 16) \<and>
     getUint16 bytes 34 = Inr 16 \<and>
     map ((!) bytes) [36..<40] = map of_char ''data'' \<and>
     getUint32 bytes 40 = Inr ((N * C * 2) mod 2 ^ 32) \<and>
     (\<forall>i < N. \<forall>c < C. getInt16 bytes (44 + (i * C + c) * 2) =
        Inr (truncatedPcm (channelSamples buffer c i)))"
proof -
  from audioBufferToWav_spec [of buffer]
  obtain H bytes where H: "writeHeader buffer (replicate (44 + N * C * 2) 0) = Inr H"
    and b: "audioBufferToWav buffer = Inr bytes"
    and len: "length bytes = 44 + N * C * 2" and lenH: "length H = 44 + N * C * 2"
    and keep: "\<forall>k. k < 44 \<longrightarrow> bytes ! k = H ! k"
    and samples: "\<forall>i < N. \<forall>c < C. getInt16 bytes (44 + (i * C + c) * 2) =
        Inr (truncatedPcm (channelSamples buffer c i))"
    unfolding N_def C_def by blast
  have same: "length bytes = length H"
    using len lenH by simp
  have "44 \<le> length (replicate (44 + N * C * 2) (0 :: byte))"
    by simp
  from writeHeader_spec [OF this, of buffer, folded N_def C_def R_def]
  obtain H' where H': "writeHeader buffer (replicate (44 + N * C * 2) 0) = Inr H'"
    and hd: "map ((!) H') [0..<4] = map of_char ''RIFF''"
    "getUint32 H' 4 = Inr ((36 + N * C * 2) mod 2 ^ 32)"
    "map ((!) H') [8..<16] = map of_char ''WAVEfmt ''"
    "getUint32 H' 16 = Inr 16"
    "getUint16 H' 20 = Inr 1"
    "getUint16 H' 22 = Inr (C mod 2 ^ 16)"
    "getUint32 H' 24 = Inr (toUint32 R)"
    "getUint32 H' 28 = Inr (toUint32 (R * real C * 2))"
    "getUint16 H' 32 = Inr ((C * 2) mod 2 ^ 16)"
    "getUint16 H' 34 = Inr 16"
    "map ((!) H') [36..<40] = map of_char ''data''"
    "getUint32 H' 40 = Inr ((N * C * 2) mod 2 ^ 32)"
    by (elim exE conjE) (rule that; assumption)
  from H H' have "H' = H"
    by simp
  note hd = hd [unfolded this]
  have "map ((!) bytes) [0..<4] = map of_char ''RIFF''"
    by (simp only: map_nth_preserved [OF keep] hd(1))
  moreover have "getUint32 bytes 4 = Inr ((36 + N * C * 2) mod 2 ^ 32)"
    by (simp only: getUint32_preserved [OF same keep] hd(2))
  moreover have "map ((!) bytes) [8..<16] = map of_char ''WAVEfmt ''"
    by (simp only: map_nth_preserved [OF keep] hd(3))
  moreover have "getUint32 bytes 16 = Inr 16"
    by (simp only: getUint32_preserved [OF same keep] hd(4))
  moreover have "getUint16 bytes 20 = Inr 1"
    by (simp only: getUint16_preserved [OF same keep] hd(5))
  moreover have "getUint16 bytes 22 = Inr (C mod 2 ^ 16)"
    by (simp only: getUint16_preserved [OF same keep] hd(6))
  moreover have "getUint32 bytes 24 = Inr (toUint32 R)"
    by (simp only: getUint32_preserved [OF same keep] hd(7))
  moreover have "getUint32 bytes 28 = Inr (toUint32 (R * real C * 2))"
    by (simp only: getUint32_preserved [OF same keep] hd(8))
  moreover have "getUint16 bytes 32 = Inr ((C * 2) mod 2 ^ 16)"
    by (simp only: getUint16_preserved [OF same keep] hd(9))
  moreover have "getUint16 bytes 34 = Inr 16"
    by (simp only: getUint16_preserved [OF same keep] hd(10))
  moreover have "map ((!) bytes) [36..<40] = map of_char ''data''"
    by (simp only: map_nth_preserved [OF keep] hd(11))
  moreover have "getUint32 bytes 40 = Inr ((N * C * 2) mod 2 ^ 32)"
    by (simp only: getUint32_preserved [OF same keep] hd(12))
  ultimately show ?thesis
    using b len samples by (intro exI [of _ bytes] conjI)
qed

text \<open>The byte rate for an integer sample rate, and the first four bytes as a prefix.\<close>

lemma nat_int_mod32: "nat (int n mod 2 ^ 32) = n mod 2 ^ 32"
proof -
  have "int n mod 2 ^ 32 = int (n mod 2 ^ 32)"
    by (simp add: zmod_int)
  then show ?thesis
    by (simp only: nat_int)
qed

lemma toUint32_byteRate:
  "toUint32 (real r * real c * 2) = (r * c * 2) mod 2 ^ 32"
proof -
  have "js_trunc (real r * real c * 2) = int (r * c * 2)"
    by (simp add: js_trunc_fields)
  then show ?thesis
    by (simp only: toUint32_def nat_int_mod32)
qed

lemma take_4_nth:
  assumes "4 \<le> length xs"
  shows "take 4 xs = map ((!) xs) [0..<4]"
  by (rule nth_equalityI) (use assms in auto)

text \<open>The encoder on one sample of value 1/2.\<close>

lemma audioBufferToWav_halfSample:
  "\<exists>bytes. audioBufferToWav halfSample = Inr bytes \<and> getInt16 bytes 44 = Inr 16383"
proof -
  from audioBufferToWav_bytes [of halfSample]
  obtain bytes where b: "audioBufferToWav halfSample = Inr bytes"
    and s: "\<forall>i < length_buf halfSample. \<forall>c < numberOfChannels halfSample.
        getInt16 bytes (44 + (i * numberOfChannels halfSample + c) * 2) =
          Inr (truncatedPcm (channelSamples halfSample c i))"
    by blast
  have "(0 :: nat) < length_buf halfSample" "(0 :: nat) < numberOfChannels halfSample"
    by (simp_all add: halfSample_def)
  with s have "getInt16 bytes (44 + (0 * numberOfChannels halfSample + 0) * 2) =
      Inr (truncatedPcm (channelSamples halfSample 0 0))"
    by blast
  then have "getInt16 bytes 44 = Inr 16383"
    by (simp add: halfSample_def truncatedPcm_def js_trunc_def)
  with b show ?thesis by blast
qed

text \<open>
  Claim C4. For every buffer of \<open>N\<close> samples per channel and \<open>C\<close> channels the encoder
  returns a byte sequence of exactly \<open>44 + N * C * 2\<close> bytes that starts with the four
  characters \<open>RIFF\<close> and whose bits-per-sample field, at offset 34, is 16. Read
  little-endian, the fields at offsets 28, 32, 40 and 4 hold \<open>R * C * 2\<close> (for the integer
  sample rates \<open>R\<close> of the data model), \<open>C * 2\<close>, \<open>N * C * 2\<close> and \<open>36 + N * C * 2\<close>, each
  modulo the width of its field, 32 bits or 16 for the block alignment; so they are
  exactly these numbers whenever the numbers fit the fields.
\<close>

theorem audioBufferToWav_layout:
  "\<exists>bytes. audioBufferToWav buffer = Inr bytes \<and>
     length bytes = 44 + length_buf buffer * numberOfChannels buffer * 2 \<and>
     take 4 bytes = map of_char ''RIFF'' \<and>
     getUint16 bytes 34 = Inr 16 \<and>
     (\<forall>r::nat. sampleRate buffer = real r \<longrightarrow>
        getUint32 bytes 28 = Inr ((r * numberOfChannels buffer * 2) mod 2 ^ 32)) \<and>
     getUint16 bytes 32 = Inr ((numberOfChannels buffer * 2) mod 2 ^ 16) \<and>
     getUint32 bytes 40 = Inr ((length_buf buffer * numberOfChannels buffer * 2) mod 2 ^ 32) \<and>
     getUint32 bytes 4 =
       Inr ((36 + length_buf buffer * numberOfChannels buffer * 2) mod 2 ^ 32) \<and>
     (\<forall>r::nat. sampleRate buffer = real r \<and>
        r * numberOfChannels buffer * 2 < 2 ^ 32 \<and>
        numberOfChannels buffer * 2 < 2 ^ 16 \<and>
        36 + length_buf buffer * numberOfChannels buffer * 2 < 2 ^ 32 \<longrightarrow>
        getUint32 bytes 28 = Inr (r * numberOfChannels buffer * 2) \<and>
        getUint16 bytes 32 = Inr (numberOfChannels buffer * 2) \<and>
        getUint32 bytes 40 = Inr (length_buf buffer * numberOfChannels buffer * 2) \<and>
        getUint32 bytes 4 = Inr (36 + length_buf buffer * numberOfChannels buffer * 2))"
proof -
  define N where "N = length_buf buffer"
  define C where "C = numberOfChannels buffer"
  from audioBufferToWav_bytes [of buffer, folded N_def C_def]
  obtain bytes where b: "audioBufferToWav buffer = Inr bytes"
    and len: "length bytes = 44 + N * C * 2"
    and riff: "map ((!) bytes) [0..<4] = map of_char ''RIFF''"
    and chunk: "getUint32 bytes 4 = Inr ((36 + N * C * 2) mod 2 ^ 32)"
    and rate: "getUint32 bytes 28 = Inr (toUint32 (sampleRate buffer * real C * 2))"
    and align: "getUint16 bytes 32 = Inr ((C * 2) mod 2 ^ 16)"
    and bits: "getUint16 bytes 34 = Inr 16"
    and data: "getUint32 bytes 40 = Inr ((N * C * 2) mod 2 ^ 32)"
    by (elim exE conjE) (rule that; assumption)
  have tag: "take 4 bytes = map of_char ''RIFF''"
    using take_4_nth [of bytes] len riff by simp
  have byteRate: "getUint32 bytes 28 = Inr ((r * C * 2) mod 2 ^ 32)"
    if "sampleRate buffer = real r" for r
    using rate that by (simp only: toUint32_byteRate)
  have exact: "getUint32 bytes 28 = Inr (r * C * 2) \<and> getUint16 bytes 32 = Inr (C * 2) \<and>
      getUint32 bytes 40 = Inr (N * C * 2) \<and> getUint32 bytes 4 = Inr (36 + N * C * 2)"
    if "sampleRate buffer = real r \<and> r * C * 2 < 2 ^ 32 \<and> C * 2 < 2 ^ 16 \<and>
      36 + N * C * 2 < 2 ^ 32" for r
  proof -
    from that have r: "sampleRate buffer = real r" and f1: "r * C * 2 < 2 ^ 32"
      and f2: "C * 2 < 2 ^ 16" and f3: "36 + N * C * 2 < 2 ^ 32"
      by blast+
    from f3 have f4: "N * C * 2 < 2 ^ 32" by linarith
    show ?thesis
      using byteRate [OF r] align data chunk
      by (simp only: mod_less [OF f1] mod_less [OF f2] mod_less [OF f3] mod_less [OF f4])
  qed
  show ?thesis
    unfolding N_def [symmetric] C_def [symmetric]
    using b len tag bits byteRate align data chunk exact by blast
qed

theorem audioBufferToWav_layout_witness:
  "\<exists>bytes. audioBufferToWav stereoFrames = Inr bytes \<and> length bytes = 52 \<and>
     take 4 bytes = map of_char ''RIFF'' \<and>
     sampleRate stereoFrames = real 44100 \<and>
     getUint32 bytes 28 = Inr 176400 \<and> getUint16 bytes 32 = Inr 4 \<and>
     getUint16 bytes 34 = Inr 16 \<and> getUint32 bytes 40 = Inr 8 \<and> getUint32 bytes 4 = Inr 44"
proof -
  have pre: "sampleRate stereoFrames = real 44100 \<and>
      44100 * numberOfChannels stereoFrames * 2 < 2 ^ 32 \<and>
      numberOfChannels stereoFrames * 2 < 2 ^ 16 \<and>
      36 + length_buf stereoFrames * numberOfChannels stereoFrames * 2 < 2 ^ 32"
    by (simp add: stereoFrames_def)
  from audioBufferToWav_layout [of stereoFrames]
  obtain bytes where b: "audioBufferToWav stereoFrames = Inr bytes"
    and len: "length bytes = 44 + length_buf stereoFrames * numberOfChannels stereoFrames * 2"
    and tag: "take 4 bytes = map of_char ''RIFF''"
    and bits: "getUint16 bytes 34 = Inr 16"
    and exact: "\<forall>r::nat. sampleRate stereoFrames = real r \<and>
        r * numberOfChannels stereoFrames * 2 < 2 ^ 32 \<and>
        numberOfChannels stereoFrames * 2 < 2 ^ 16 \<and>
        36 + length_buf stereoFrames * numberOfChannels stereoFrames * 2 < 2 ^ 32 \<longrightarrow>
        getUint32 bytes 28 = Inr (r * numberOfChannels stereoFrames * 2) \<and>
        getUint16 bytes 32 = Inr (numberOfChannels stereoFrames * 2) \<and>
        getUint32 bytes 40 = Inr (length_buf stereoFrames * numberOfChannels stereoFrames * 2) \<and>
        getUint32 bytes 4 =
          Inr (36 + length_buf stereoFrames * numberOfChannels stereoFrames * 2)"
    by (elim exE conjE) (rule that; assumption)
  from exact pre have "getUint32 bytes 28 = Inr (44100 * numberOfChannels stereoFrames * 2) \<and>
        getUint16 bytes 32 = Inr (numberOfChannels stereoFrames * 2) \<and>
        getUint32 bytes 40 = Inr (length_buf stereoFrames * numberOfChannels stereoFrames * 2) \<and>
        getUint32 bytes 4 =
          Inr (36 + length_buf stereoFrames * numberOfChannels stereoFrames * 2)"
    by blast
  then have "getUint32 bytes 28 = Inr 176400 \<and> getUint16 bytes 32 = Inr 4 \<and>
      getUint32 bytes 40 = Inr 8 \<and> getUint32 bytes 4 = Inr 44"
    by (simp add: stereoFrames_def)
  moreover from len have "length bytes = 52"
    by (simp add: stereoFrames_def)
  moreover have "sampleRate stereoFrames = real 44100"
    by (simp add: stereoFrames_def)
  ultimately show ?thesis
    using b tag bits by blast
qed

text \<open>
  Claim C3, as stated, fails at a mono buffer of one sample of value 1/2: the encoder
  writes 16383 at offset 44, the integer part of 16383.5, while rounding gives 16384.
\<close>

theorem pcm_sample_not_rounded:
  "\<not> isl (audioBufferToWav halfSample) \<and>
   getInt16 (projr (audioBufferToWav halfSample)) 44 = Inr 16383 \<and>
   roundedPcm (channelSamples halfSample 0 0) = 16384"
proof -
  from audioBufferToWav_halfSample
  obtain bytes where "audioBufferToWav halfSample = Inr bytes" "getInt16 bytes 44 = Inr 16383"
    by blast
  moreover have "roundedPcm (channelSamples halfSample 0 0) = 16384"
    by (simp add: halfSample_def roundedPcm_def js_round_def)
  ultimately show ?thesis by simp
qed

text \<open>
  Claim C3, amended. For every buffer the encoder returns a byte sequence, and the 16-bit
  little-endian signed integer at byte offset \<open>44 + (i * channels + c) * 2\<close> is the
  sample at index \<open>i\<close> of channel \<open>c\<close>, clamped to \<open>[-1, 1]\<close>, multiplied by 32767 and
  truncated toward zero.
\<close>

theorem audioBufferToWav_truncated_samples:
  "\<exists>bytes. audioBufferToWav buffer = Inr bytes \<and>
     (\<forall>i < length_buf buffer. \<forall>c < numberOfChannels buffer.
        getInt16 bytes (44 + (i * numberOfChannels buffer + c) * 2) =
          Inr (js_trunc (max (- 1) (min 1 (channelSamples buffer c i)) * 32767)))"
  using audioBufferToWav_bytes [of buffer] unfolding truncatedPcm_def by blast

theorem audioBufferToWav_truncated_samples_witness:
  "\<exists>bytes. audioBufferToWav stereoFrames = Inr bytes \<and>
     getInt16 bytes 44 = Inr (- 32767) \<and> getInt16 bytes 50 = Inr 8191"
proof -
  from audioBufferToWav_truncated_samples [of stereoFrames]
  obtain bytes where b: "audioBufferToWav stereoFrames = Inr bytes"
    and s: "\<forall>i < length_buf stereoFrames. \<forall>c < numberOfChannels stereoFrames.
        getInt16 bytes (44 + (i * numberOfChannels stereoFrames + c) * 2) =
          Inr (js_trunc (max (- 1) (min 1 (channelSamples stereoFrames c i)) * 32767))"
    by blast
  have "(0 :: nat) < length_buf stereoFrames" "(0 :: nat) < numberOfChannels stereoFrames"
    "(1 :: nat) < length_buf stereoFrames" "(1 :: nat) < numberOfChannels stereoFrames"
    by (simp_all add: stereoFrames_def)
  with s have "getInt16 bytes (44 + (0 * numberOfChannels stereoFrames + 0) * 2) =
      Inr (js_trunc (max (- 1) (min 1 (channelSamples stereoFrames 0 0)) * 32767))"
    "getInt16 bytes (44 + (1 * numberOfChannels stereoFrames + 1) * 2) =
      Inr (js_trunc (max (- 1) (min 1 (channelSamples stereoFrames 1 1)) * 32767))"
    by blast+
  then have "getInt16 bytes 44 = Inr (- 32767)" "getInt16 bytes 50 = Inr 8191"
    by (simp_all add: stereoFrames_def js_trunc_def)
  with b show ?thesis by blast
qed

end
